theory Spec2Isabelle
  imports Complex_Main "HOL-Library.Multiset"
begin

section \<open>Numeric values of the numerical library\<close>

text \<open>
  The analysis scripts compute on binary64 arrays.  Rounding is not modelled: finite
  values are real numbers and the arithmetic on them is exact.  What is modelled is the
  behaviour of the array library where a real-number reading would hide a branch of the
  program: a division by zero does not raise, it yields an infinity or a not-a-number,
  and every comparison with a not-a-number is false.
\<close>

datatype npfloat = Fin real | PInf | NInf | NaN

fun fneg :: "npfloat \<Rightarrow> npfloat" where
  "fneg (Fin a) = Fin (- a)"
| "fneg PInf = NInf"
| "fneg NInf = PInf"
| "fneg NaN = NaN"

fun fadd :: "npfloat \<Rightarrow> npfloat \<Rightarrow> npfloat" where
  "fadd (Fin a) (Fin b) = Fin (a + b)"
| "fadd NaN _ = NaN"
| "fadd _ NaN = NaN"
| "fadd PInf NInf = NaN"
| "fadd NInf PInf = NaN"
| "fadd PInf _ = PInf"
| "fadd _ PInf = PInf"
| "fadd NInf _ = NInf"
| "fadd _ NInf = NInf"

definition fsub :: "npfloat \<Rightarrow> npfloat \<Rightarrow> npfloat" where
  "fsub a b = fadd a (fneg b)"

definition inf_of_sign :: "real \<Rightarrow> npfloat" where
  "inf_of_sign a = (if a = 0 then NaN else if 0 < a then PInf else NInf)"

fun fmul :: "npfloat \<Rightarrow> npfloat \<Rightarrow> npfloat" where
  "fmul (Fin a) (Fin b) = Fin (a * b)"
| "fmul NaN _ = NaN"
| "fmul _ NaN = NaN"
| "fmul (Fin a) PInf = inf_of_sign a"
| "fmul (Fin a) NInf = inf_of_sign (- a)"
| "fmul PInf (Fin b) = inf_of_sign b"
| "fmul NInf (Fin b) = inf_of_sign (- b)"
| "fmul PInf PInf = PInf"
| "fmul PInf NInf = NInf"
| "fmul NInf PInf = NInf"
| "fmul NInf NInf = PInf"

fun fdiv :: "npfloat \<Rightarrow> npfloat \<Rightarrow> npfloat" where
  "fdiv (Fin a) (Fin b) = (if b = 0 then inf_of_sign a else Fin (a / b))"
| "fdiv NaN _ = NaN"
| "fdiv _ NaN = NaN"
| "fdiv (Fin a) PInf = Fin 0"
| "fdiv (Fin a) NInf = Fin 0"
| "fdiv PInf (Fin b) = (if 0 \<le> b then PInf else NInf)"
| "fdiv NInf (Fin b) = (if 0 \<le> b then NInf else PInf)"
| "fdiv _ _ = NaN"

fun fsqrt :: "npfloat \<Rightarrow> npfloat" where
  "fsqrt (Fin a) = (if a < 0 then NaN else Fin (sqrt a))"
| "fsqrt PInf = PInf"
| "fsqrt NInf = NaN"
| "fsqrt NaN = NaN"

fun fabs :: "npfloat \<Rightarrow> npfloat" where
  "fabs (Fin a) = Fin \<bar>a\<bar>"
| "fabs PInf = PInf"
| "fabs NInf = PInf"
| "fabs NaN = NaN"

text \<open>\<open>fgt a b\<close> is the comparison \<open>a > b\<close>.\<close>

fun fgt :: "npfloat \<Rightarrow> npfloat \<Rightarrow> bool" where
  "fgt (Fin a) (Fin b) = (b < a)"
| "fgt NaN _ = False"
| "fgt _ NaN = False"
| "fgt PInf PInf = False"
| "fgt PInf _ = True"
| "fgt _ PInf = False"
| "fgt NInf _ = False"
| "fgt _ NInf = True"

definition fsum :: "npfloat list \<Rightarrow> npfloat" where
  "fsum xs = foldr fadd xs (Fin 0)"

text \<open>\<open>np.mean\<close> of a non-empty array: the sum divided by the number of elements.\<close>

definition np_mean :: "npfloat list \<Rightarrow> npfloat" where
  "np_mean xs = fdiv (fsum xs) (Fin (real (length xs)))"

text \<open>
  \<open>np.std(a, ddof=d)\<close>: the root of the sum of squared deviations from the mean,
  divided by \<open>max(n - d, 0)\<close>.  With \<open>n \<le> d\<close> the divisor is zero and the
  result is an infinity or a not-a-number, with a warning and no exception.
\<close>

definition np_std :: "nat \<Rightarrow> npfloat list \<Rightarrow> npfloat" where
  "np_std ddof xs =
     (let m = np_mean xs;
          sq = map (\<lambda>x. fmul (fabs (fsub x m)) (fabs (fsub x m))) xs
      in fsqrt (fdiv (fsum sq) (Fin (real (length xs - ddof)))))"

section \<open>Structural-break test (run\_25year\_analysis.py)\<close>

datatype error = ValueError | IndexError | KeyError | TypeError | ZeroDivisionError

text \<open>
  \<open>scipy.stats.linregress(x, y)\<close>, slope and intercept only.  The library raises
  \<open>ValueError\<close> on empty input and when there are at least two observations whose
  \<open>x\<close> values are all identical; otherwise the slope is the ratio of the (biased)
  covariance to the (biased) variance of \<open>x\<close>, and the intercept follows.  A training
  sample is a list of \<open>(x, y)\<close> pairs.
\<close>

definition linregress :: "(real \<times> real) list \<Rightarrow> error + (npfloat \<times> npfloat)" where
  "linregress tr =
     (let xs = map fst tr; ys = map snd tr; n = real (length tr) in
      if tr = [] then Inl ValueError
      else if Max (set xs) = Min (set xs) \<and> 1 < length tr then Inl ValueError
      else
        (let xmean = sum_list xs / n;
             ymean = sum_list ys / n;
             ssxm = (\<Sum>x\<leftarrow>xs. (x - xmean) * (x - xmean)) / n;
             ssxym = (\<Sum>(x, y)\<leftarrow>tr. (x - xmean) * (y - ymean)) / n;
             slope = fdiv (Fin ssxym) (Fin ssxm);
             intercept = fsub (Fin ymean) (fmul slope (Fin xmean))
         in Inr (slope, intercept)))"

record break_result =
  slope_pre :: npfloat
  intercept_pre :: npfloat
  predicted :: npfloat
  residual :: npfloat
  se_resid :: npfloat
  se_pred :: npfloat
  z_score :: npfloat
  is_outlier :: bool

text \<open>
  One trend-extrapolation test of \<open>run_structural_break_tests\<close>: the training
  sample \<open>tr\<close>, the held-out point \<open>(x_new, y_actual)\<close> (the scripts use
  \<open>x_new = 2025\<close>).  The four tests of the function are this computation on four
  series.  The record keeps the local variables; the report rounds them.
\<close>

definition structural_break ::
  "(real \<times> real) list \<Rightarrow> real \<Rightarrow> real \<Rightarrow> error + break_result" where
  "structural_break tr x_new y_actual =
     (case linregress tr of
        Inl e \<Rightarrow> Inl e
      | Inr (slope, intercept) \<Rightarrow>
          (let X_pre = map fst tr; y_pre = map snd tr;
               predicted_new = fadd (fmul slope (Fin x_new)) intercept;
               residual_new = fsub (Fin y_actual) predicted_new;
               pre_predicted = map (\<lambda>x. fadd (fmul slope (Fin x)) intercept) X_pre;
               n_pre = length X_pre;
               sr = np_std 2 (map2 (\<lambda>y p. fsub (Fin y) p) y_pre pre_predicted);
               x_bar = sum_list X_pre / real n_pre;
               ss_x = (\<Sum>x\<leftarrow>X_pre. (x - x_bar) ^ 2);
               sp = fmul sr (fsqrt (fadd (Fin (1 + 1 / real n_pre))
                                     (fdiv (Fin ((x_new - x_bar) ^ 2)) (Fin ss_x))));
               z = (if fgt sp (Fin 0) then fdiv residual_new sp else Fin 0)
           in Inr \<lparr> slope_pre = slope, intercept_pre = intercept,
                    predicted = predicted_new, residual = residual_new,
                    se_resid = sr, se_pred = sp, z_score = z,
                    is_outlier = fgt (fabs z) (Fin 2) \<rparr>))"

section \<open>Distributional attribution and welfare weighting (run\_counterfactual\_analysis.py)\<close>


definition get_or :: "'a option \<Rightarrow> 'a \<Rightarrow> 'a" where
  "get_or v d = (case v of Some x \<Rightarrow> x | None \<Rightarrow> d)"










record impact =
  spending_cut_B :: real
  tariff_burden_B :: real
  total_impact_B :: real
  population :: real
  per_person :: real

text \<open>
  The loop that combines the impacts and fills the dictionary \<open>total_impacts\<close>: one
  entry per stratum, with the guarded division \<open>(total * 1e9) / pop if pop > 0 else 0\<close>
  and the population default \<open>quintile_pop.get(q, 1)\<close>.
\<close>

definition stratum_impact :: "(string \<rightharpoonup> real) \<Rightarrow> string \<Rightarrow> real \<Rightarrow> real \<Rightarrow> impact" where
  "stratum_impact pops q spend tariff =
     (let total = spend + tariff;
          pop = get_or (pops q) 1;
          pp = (if 0 < pop then (total * 1000000000) / pop else 0)
      in \<lparr> spending_cut_B = spend, tariff_burden_B = tariff, total_impact_B = total,
            population = pop, per_person = pp \<rparr>)"










section \<open>Weighted distributional statistics (acquire\_cps\_asec.py)\<close>

text \<open>
  An observation is a pair of an income value and a survey weight.  Sorting by income
  (\<open>sort_values\<close>, \<open>argsort\<close>) is modelled by the stable insertion sort
  \<open>sort_key fst\<close>: the sort compares incomes only, so where incomes tie the order of
  the output is fixed by the positions in the input, never by the weights.
\<close>

type_synonym obs = "real \<times> real"

fun cumsum_from :: "real \<Rightarrow> real list \<Rightarrow> real list" where
  "cumsum_from acc [] = []"
| "cumsum_from acc (x # xs) = (acc + x) # cumsum_from (acc + x) xs"

definition cumsum :: "real list \<Rightarrow> real list" where
  "cumsum xs = cumsum_from 0 xs"

text \<open>
  The ranking shared by \<open>compute_quintile_stats\<close> and \<open>compute_income_shares\<close>:
  keep the rows with positive weight, sort by income, and attach to each row the
  cumulative weight divided by the total weight (\<open>cum_pct\<close>).
\<close>

definition weighted_quantile_rank :: "obs list \<Rightarrow> (obs \<times> real) list" where
  "weighted_quantile_rank df =
     (let valid = filter (\<lambda>(v, w). 0 < w) df;
          valid_sorted = sort_key fst valid;
          cum_weight = cumsum (map snd valid_sorted);
          total_weight = sum_list (map snd valid_sorted)
      in zip valid_sorted (map (\<lambda>c. c / total_weight) cum_weight))"

text \<open>
  \<open>pd.cut(x, bins, include_lowest=True)\<close> with right-closed intervals: the bin index
  is the left insertion point of \<open>x\<close> among the edges, a value equal to the first
  edge goes to the first bin, and a value below the first edge or above the last has
  no bin.
\<close>

definition searchsorted_left :: "'a::linorder list \<Rightarrow> 'a \<Rightarrow> nat" where
  "searchsorted_left bins x = length (takeWhile (\<lambda>b. b < x) bins)"

definition pd_cut :: "real list \<Rightarrow> real \<Rightarrow> nat option" where
  "pd_cut bins x =
     (let ids = (if x = hd bins then 1 else searchsorted_left bins x)
      in if ids = length bins \<or> ids = 0 then None else Some (ids - 1))"

definition quintile_bins :: "real list" where
  "quintile_bins = [0, 0.2, 0.4, 0.6, 0.8, 1.0]"

definition quintile_of :: "real \<Rightarrow> nat option" where
  "quintile_of cum_pct = pd_cut quintile_bins cum_pct"

definition bottom_50 :: "real \<Rightarrow> bool" where
  "bottom_50 cum_pct = (cum_pct \<le> 0.50)"

definition top_10 :: "real \<Rightarrow> bool" where
  "top_10 cum_pct = (0.90 < cum_pct)"

definition top_1 :: "real \<Rightarrow> bool" where
  "top_1 cum_pct = (0.99 < cum_pct)"

text \<open>
  The weighted income of a group of ranked rows, \<open>np.sum(g[income] * g[weight])\<close>,
  and the weighted head count \<open>w.sum()\<close>.
\<close>

definition group_total :: "(real \<Rightarrow> bool) \<Rightarrow> (obs \<times> real) list \<Rightarrow> real" where
  "group_total P ranked = (\<Sum>((v, w), cp) \<leftarrow> filter (\<lambda>(x, cp). P cp) ranked. v * w)"

definition group_weight :: "(real \<Rightarrow> bool) \<Rightarrow> (obs \<times> real) list \<Rightarrow> real" where
  "group_weight P ranked = (\<Sum>((v, w), cp) \<leftarrow> filter (\<lambda>(x, cp). P cp) ranked. w)"

record income_shares =
  bottom_50_share :: real
  middle_40_share :: real
  top_10_share :: real
  top_1_share :: real
  total :: real

text \<open>
  \<open>compute_income_shares\<close> for one income column; an income type whose weighted
  total is not positive gets no entry (\<open>if total <= 0: continue\<close>).
\<close>

definition compute_income_shares :: "obs list \<Rightarrow> income_shares option" where
  "compute_income_shares df =
     (let valid_sorted = weighted_quantile_rank df;
          tot = group_total (\<lambda>cp. True) valid_sorted
      in if tot \<le> 0 then None
         else Some \<lparr> bottom_50_share = group_total (\<lambda>cp. cp \<le> 0.50) valid_sorted / tot * 100,
                     middle_40_share =
                       group_total (\<lambda>cp. 0.50 < cp \<and> cp \<le> 0.90) valid_sorted / tot * 100,
                     top_10_share = group_total (\<lambda>cp. 0.90 < cp) valid_sorted / tot * 100,
                     top_1_share = group_total (\<lambda>cp. 0.99 < cp) valid_sorted / tot * 100,
                     total = tot \<rparr>)"

text \<open>
  The income share of quintile \<open>k\<close> (0 to 4): the rows that
  \<open>compute_quintile_stats\<close> puts in the quintile, with the share formula of
  \<open>compute_income_shares\<close> (weighted income of the group over the weighted income of
  the sample, in percent).  \<open>quintile_persons\<close> is the \<open>weighted_persons\<close> entry of
  the quintile's row.
\<close>

definition quintile_share :: "obs list \<Rightarrow> nat \<Rightarrow> real" where
  "quintile_share df k =
     (let ranked = weighted_quantile_rank df;
          tot = group_total (\<lambda>cp. True) ranked
      in group_total (\<lambda>cp. quintile_of cp = Some k) ranked / tot * 100)"

definition quintile_persons :: "obs list \<Rightarrow> nat \<Rightarrow> real" where
  "quintile_persons df k =
     group_weight (\<lambda>cp. quintile_of cp = Some k) (weighted_quantile_rank df)"

subsection \<open>The approximate Gini coefficient\<close>

text \<open>
  The expression shared by \<open>compute_state_level_stats\<close> and the bootstrap of
  \<open>run_robustness_checks.py\<close>, on arrays already sorted by income:
  \<open>1 - 2 * np.sum(cum_inc / total_inc * w / total_w)\<close>.
\<close>

definition lorenz_gini :: "real list \<Rightarrow> real list \<Rightarrow> real \<Rightarrow> real \<Rightarrow> real" where
  "lorenz_gini cum_inc wts_sorted total_inc total_w =
     1 - 2 * (\<Sum>(ci, w) \<leftarrow> zip cum_inc wts_sorted. ci / total_inc * w / total_w)"

text \<open>
  The bootstrap's \<open>gini_approx\<close> on one sample; \<open>cum_w[-1]\<close> raises on an empty
  sample.
\<close>

definition gini_approx :: "obs list \<Rightarrow> error + real" where
  "gini_approx smp =
     (let s = sort_key fst smp;
          inc_s = map fst s; w_s = map snd s;
          cum_w = cumsum w_s
      in if cum_w = [] then Inl IndexError
         else
           (let total_w = last cum_w;
                total_inc = sum_list (map2 (*) inc_s w_s);
                cum_inc = cumsum (map2 (*) inc_s w_s)
            in Inr (if 0 < total_inc \<and> 0 < total_w
                    then lorenz_gini cum_inc w_s total_inc total_w else 0)))"

text \<open>
  The \<open>gini\<close> entry of a state row in \<open>compute_state_level_stats\<close>: states with
  fewer than 50 records are skipped, and the entry is absent when the guard fails.
\<close>

definition state_gini :: "obs list \<Rightarrow> real option" where
  "state_gini state_df =
     (if length state_df < 50 then None
      else
        (let s = sort_key fst state_df;
             inc_sorted = map fst s; wts_sorted = map snd s;
             cum_wts = cumsum wts_sorted;
             cum_inc = cumsum (map2 (*) inc_sorted wts_sorted);
             total_w = last cum_wts;
             total_inc = last cum_inc
         in if 0 < total_inc \<and> 0 < total_w
            then Some (lorenz_gini cum_inc wts_sorted total_inc total_w) else None))"

section \<open>Interrupted time series (src/analysis/policy\_impact.py)\<close>

text \<open>
  A series is a list of dated values in index order; a timestamp is an integer (a day
  number) and a missing value (\<open>NaN\<close>) is \<open>None\<close>.  \<open>dropna\<close> removes the missing
  values and \<open>sort_index\<close> sorts by timestamp.
\<close>

type_synonym timestamp = int

definition dropna :: "(timestamp \<times> real option) list \<Rightarrow> (timestamp \<times> real) list" where
  "dropna series = List.map_filter (\<lambda>(t, v). map_option (Pair t) v) series"

definition sort_index :: "(timestamp \<times> real) list \<Rightarrow> (timestamp \<times> real) list" where
  "sort_index s = sort_key fst s"

text \<open>\<open>s.iloc[:e]\<close>: a negative end counts from the end of the list.\<close>

definition iloc_to :: "'a list \<Rightarrow> int \<Rightarrow> 'a list" where
  "iloc_to s e = (if 0 \<le> e then take (nat e) s else take (length s - nat (- e)) s)"

text \<open>
  The optional window.  \<open>if pre_periods:\<close> is false for \<open>None\<close> and for 0; the
  window starts \<open>pre_periods\<close> observations before the insertion point of the
  intervention date and ends \<open>post_periods\<close> observations after it.
\<close>

definition its_window ::
  "int option \<Rightarrow> int option \<Rightarrow> timestamp \<Rightarrow> (timestamp \<times> real) list
     \<Rightarrow> (timestamp \<times> real) list" where
  "its_window pre_periods post_periods intervention_dt s0 =
     (let s1 = (case pre_periods of
                  None \<Rightarrow> s0
                | Some p \<Rightarrow>
                    if p = 0 then s0
                    else (let start_idx = int (searchsorted_left (map fst s0) intervention_dt) - p
                          in drop (nat (max 0 start_idx)) s0))
      in (case post_periods of
            None \<Rightarrow> s1
          | Some q \<Rightarrow>
              if q = 0 then s1
              else (let end_idx = int (searchsorted_left (map fst s1) intervention_dt) + q
                    in iloc_to s1 (min (int (length s1)) end_idx))))"

text \<open>
  \<open>argmax\<close> of an integer array: the first index holding the maximum;
  \<open>ValueError\<close> on an empty array.
\<close>

definition argmax :: "int list \<Rightarrow> error + nat" where
  "argmax xs = (if xs = [] then Inl ValueError
                else Inr (length (takeWhile (\<lambda>x. x \<noteq> Max (set xs)) xs)))"

text \<open>
  \<open>sm.add_constant\<close> on a data frame (\<open>has_constant='skip'\<close>): the column of ones
  is prepended unless some column is already a non-zero constant (its range is 0 and
  it has a non-zero entry).
\<close>

definition is_const_col :: "int list \<Rightarrow> bool" where
  "is_const_col c = (c \<noteq> [] \<and> Max (set c) - Min (set c) = 0 \<and> (\<exists>x \<in> set c. x \<noteq> 0))"

definition adds_const :: "int list \<Rightarrow> int list \<Rightarrow> int list \<Rightarrow> bool" where
  "adds_const tv iv ta = (\<not> (is_const_col tv \<or> is_const_col iv \<or> is_const_col ta))"

definition design_row :: "bool \<Rightarrow> int \<Rightarrow> int \<Rightarrow> int \<Rightarrow> real list" where
  "design_row with_const t i a =
     (if with_const then [1] else []) @ [real_of_int t, real_of_int i, real_of_int a]"

text \<open>The linear prediction of one design row: the dot product with the parameters.\<close>

definition predict_row :: "real list \<Rightarrow> real list \<Rightarrow> real" where
  "predict_row params row = sum_list (map2 (*) row params)"

text \<open>
  The lag truncation \<open>max(1, int(0.75 * (n_obs ** (1/3))))\<close>.  The power is
  evaluated in binary64 by the interpreter; its value \<open>c\<close> is an argument of the
  model.  \<open>int\<close> truncates towards zero.
\<close>

definition py_int :: "real \<Rightarrow> int" where
  "py_int x = (if 0 \<le> x then \<lfloor>x\<rfloor> else \<lceil>x\<rceil>)"

definition max_lags :: "real \<Rightarrow> int" where
  "max_lags c = max 1 (py_int (0.75 * c))"

text \<open>
  The same formula in exact arithmetic, \<open>max(1, floor(0.75 * n^(1/3)))\<close>, for
  comparison.
\<close>

definition exact_max_lags :: "nat \<Rightarrow> int" where
  "exact_max_lags n = max 1 \<lfloor>0.75 * root 3 (real n)\<rfloor>"

text \<open>
  The regression library.  \<open>sm.OLS(endog, exog).fit(cov_type='HAC',
  cov_kwds={'maxlags': L})\<close> is a call into statsmodels: the model keeps what the
  call is given (the dependent values, the named design columns, the requested
  covariance) in a \<open>fit_request\<close>, and the library's answer is an argument of the
  model, \<open>ols_fit\<close>: either an exception or the parameter vector, one finite
  coefficient per design column.  \<open>model_report\<close> stands in the same way for what
  the function reads off the fitted model for its result (\<open>model.summary2()\<close>,
  \<open>model.pvalues\<close>, \<open>model.rsquared\<close>), which can raise as well.  The linear
  prediction (\<open>model.predict\<close>, \<open>model.fittedvalues\<close>) is the dot product of a
  design row with the parameters.
\<close>

datatype cov_spec = Nonrobust | HAC int

record fit_request =
  endog :: "real list"
  exog_names :: "string list"
  exog :: "real list list"
  cov_type :: cov_spec

record fit_report =
  summary2 :: string
  model_pvalues :: "npfloat list"
  model_rsquared :: npfloat

text \<open>
  Lines 169 to 187: the regressors, the design matrix \<open>X_const\<close> and the fit request
  for the analysed series \<open>s\<close>.  \<open>pow_third n\<close> is the binary64 value of
  \<open>n ** (1/3)\<close>.
\<close>

definition its_request ::
  "(nat \<Rightarrow> real) \<Rightarrow> (timestamp \<times> real) list \<Rightarrow> timestamp \<Rightarrow> error + fit_request" where
  "its_request pow_third s intervention_dt =
     (let idx = map fst s;
          time_var = map int [0..<length s];
          intervention = map (\<lambda>t. if intervention_dt \<le> t then 1 else 0) idx
      in case argmax intervention of
           Inl e \<Rightarrow> Inl e
         | Inr am \<Rightarrow>
             (let time_after = map2 (\<lambda>i t. if i \<noteq> 0 then t - time_var ! am else 0)
                                    intervention time_var;
                  c = adds_const time_var intervention time_after;
                  X_const = map (\<lambda>(t, i, a). design_row c t i a)
                                (zip time_var (zip intervention time_after));
                  n_obs = length s;
                  lags = max_lags (pow_third n_obs)
              in Inr \<lparr> endog = map snd s,
                       exog_names = (if c then [''const''] else [])
                                    @ [''time'', ''intervention'', ''time_after''],
                       exog = X_const,
                       cov_type = HAC lags \<rparr>))"

text \<open>\<open>X[name] = v\<close> on one row of a frame with the given column names.\<close>

definition set_col :: "string list \<Rightarrow> string \<Rightarrow> real \<Rightarrow> real list \<Rightarrow> real list" where
  "set_col names name v row = map2 (\<lambda>n x. if n = name then v else x) names row"

record its_result =
  model_summary :: string
  params :: "(string \<times> real) list"
  pvalues :: "(string \<times> npfloat) list"
  r_squared :: npfloat
  intervention_effect :: real
  trend_change :: real
  actual :: "(timestamp \<times> real) list"
  fitted :: "(timestamp \<times> real) list"
  counterfactual :: "(timestamp \<times> real) list"

text \<open>
  \<open>interrupted_time_series\<close>.  An exception of \<open>argmax\<close>, of the fit or of the
  report is the function's exception.  The fitted values are the predictions of the
  design rows, the counterfactual those of the rows with the columns \<open>intervention\<close>
  and \<open>time_after\<close> set to 0; both are indexed by the index of the analysed series.
\<close>

definition interrupted_time_series ::
  "(fit_request \<Rightarrow> error + real list) \<Rightarrow> (fit_request \<Rightarrow> real list \<Rightarrow> error + fit_report)
     \<Rightarrow> (nat \<Rightarrow> real)
     \<Rightarrow> (timestamp \<times> real option) list \<Rightarrow> timestamp \<Rightarrow> int option \<Rightarrow> int option
     \<Rightarrow> error + its_result" where
  "interrupted_time_series ols_fit model_report pow_third series intervention_dt
                           pre_periods post_periods =
     (let s = its_window pre_periods post_periods intervention_dt (sort_index (dropna series))
      in case its_request pow_third s intervention_dt of
           Inl e \<Rightarrow> Inl e
         | Inr req \<Rightarrow>
             (case ols_fit req of
                Inl e \<Rightarrow> Inl e
              | Inr ps \<Rightarrow>
                  (let X_counter = map (\<lambda>row. set_col (exog_names req) ''time_after'' 0
                                                (set_col (exog_names req) ''intervention'' 0 row))
                                       (exog req);
                       cf = map (predict_row ps) X_counter
                   in case model_report req ps of
                        Inl e \<Rightarrow> Inl e
                      | Inr rep \<Rightarrow>
                          Inr \<lparr> model_summary = summary2 rep,
                                params = zip (exog_names req) ps,
                                pvalues = zip (exog_names req) (model_pvalues rep),
                                r_squared = model_rsquared rep,
                                intervention_effect =
                                  get_or (map_of (zip (exog_names req) ps) ''intervention'') 0,
                                trend_change =
                                  get_or (map_of (zip (exog_names req) ps) ''time_after'') 0,
                                actual = s,
                                fitted = zip (map fst s) (map (predict_row ps) (exog req)),
                                counterfactual = zip (map fst s) cf \<rparr>)))"

definition fitted_index :: "error + its_result \<Rightarrow> error + timestamp list" where
  "fitted_index res = (case res of Inl e \<Rightarrow> Inl e | Inr r \<Rightarrow> Inr (map fst (fitted r)))"

definition counterfactual_index :: "error + its_result \<Rightarrow> error + timestamp list" where
  "counterfactual_index res =
     (case res of Inl e \<Rightarrow> Inl e | Inr r \<Rightarrow> Inr (map fst (counterfactual r)))"

section \<open>Cluster bootstrap (run\_robustness\_checks.py)\<close>

text \<open>
  A row of the microdata: the household key \<open>PH_SEQ\<close>, the person weight
  \<open>MARSUPWT\<close> and the pre-tax income, \<open>None\<close> when missing.  \<open>valid_rows\<close> keeps
  the rows with positive weight and a present income, as triples of key, income and
  weight.
\<close>

record micro_row =
  PH_SEQ :: int
  MARSUPWT :: real
  pretax_income :: "real option"

definition valid_rows :: "micro_row list \<Rightarrow> (int \<times> real \<times> real) list" where
  "valid_rows df =
     List.map_filter
       (\<lambda>r. case pretax_income r of
               None \<Rightarrow> None
             | Some inc \<Rightarrow> if 0 < MARSUPWT r then Some (PH_SEQ r, inc, MARSUPWT r) else None)
       df"

definition np_unique :: "int list \<Rightarrow> int list" where
  "np_unique xs = sort (remdups xs)"

text \<open>
  The dictionary from household key to row positions, as an association list in
  insertion order: \<open>hh_to_rows.setdefault(hh, []).append(i)\<close>.
\<close>

fun setdefault_append :: "(int \<times> nat list) list \<Rightarrow> int \<Rightarrow> nat \<Rightarrow> (int \<times> nat list) list" where
  "setdefault_append [] hh i = [(hh, [i])]"
| "setdefault_append ((k, rows) # m) hh i =
     (if k = hh then (k, rows @ [i]) # m else (k, rows) # setdefault_append m hh i)"

definition hh_to_rows :: "int list \<Rightarrow> (int \<times> nat list) list" where
  "hh_to_rows hh_arr = fold (\<lambda>(i, hh) m. setdefault_append m hh i) (enumerate 0 hh_arr) []"

text \<open>\<open>[hh_row_arrays[hh] for hh in boot_hh_idx]\<close>; a key absent from the dictionary raises.\<close>

fun lookup_rows :: "(int \<times> nat list) list \<Rightarrow> int list \<Rightarrow> error + nat list list" where
  "lookup_rows m [] = Inr []"
| "lookup_rows m (hh # hhs) =
     (case map_of m hh of
        None \<Rightarrow> Inl KeyError
      | Some rows \<Rightarrow> (case lookup_rows m hhs of Inl e \<Rightarrow> Inl e | Inr rest \<Rightarrow> Inr (rows # rest)))"

text \<open>\<open>np.concatenate\<close> raises on an empty list of arrays.\<close>

definition np_concatenate :: "nat list list \<Rightarrow> error + nat list" where
  "np_concatenate arrays = (if arrays = [] then Inl ValueError else Inr (concat arrays))"

record boot_stats =
  bs_bottom_50_share :: real
  bs_bottom_50_mean_income :: real
  bs_top_10_share :: real
  bs_gini_approx :: real

text \<open>
  The four statistics of one replicate sample (incomes and weights in the order of the
  gathered rows).
\<close>

definition replicate_stats :: "obs list \<Rightarrow> error + boot_stats" where
  "replicate_stats smp =
     (let s = sort_key fst smp;
          inc_s = map fst s; w_s = map snd s;
          cum_w = cumsum w_s
      in if cum_w = [] then Inl IndexError
         else
           (let total_w = last cum_w;
                ranked = zip s (map (\<lambda>c. c / total_w) cum_w);
                total_inc = sum_list (map2 (*) inc_s w_s);
                b50_inc = group_total (\<lambda>cp. cp \<le> 0.50) ranked;
                b50_w = group_weight (\<lambda>cp. cp \<le> 0.50) ranked;
                t10_inc = group_total (\<lambda>cp. 0.90 < cp) ranked;
                cum_inc = cumsum (map2 (*) inc_s w_s)
            in Inr \<lparr> bs_bottom_50_share = (if 0 < total_inc then b50_inc / total_inc * 100 else 0),
                     bs_bottom_50_mean_income = (if 0 < b50_w then b50_inc / b50_w else 0),
                     bs_top_10_share = (if 0 < total_inc then t10_inc / total_inc * 100 else 0),
                     bs_gini_approx =
                       (if 0 < total_inc \<and> 0 < total_w
                        then lorenz_gini cum_inc w_s total_inc total_w else 0) \<rparr>))"

text \<open>
  One replicate: the drawn household keys, the gathered row positions, the sample and
  its statistics.
\<close>

record boot_replicate =
  boot_hh :: "int list"
  row_idx :: "nat list"
  boot_sample :: "obs list"
  boot_result :: boot_stats

text \<open>
  The random generator is the array library's \<open>RandomState\<close>.  Its state has type
  \<open>'g\<close>, and \<open>randint g n sz\<close> stands for the \<open>sz\<close> indices below \<open>n\<close> it
  draws from state \<open>g\<close> together with the next state; \<open>rng.choice(a, size,
  replace=True)\<close> returns the elements of \<open>a\<close> at these indices.  \<open>randint_ok\<close> is
  the library's contract for a non-empty population.
\<close>

definition randint_ok :: "('g \<Rightarrow> nat \<Rightarrow> nat \<Rightarrow> nat list \<times> 'g) \<Rightarrow> bool" where
  "randint_ok randint =
     (\<forall>g n sz. 0 < n \<longrightarrow> length (fst (randint g n sz)) = sz
                          \<and> (\<forall>i \<in> set (fst (randint g n sz)). i < n))"

definition rng_choice ::
  "('g \<Rightarrow> nat \<Rightarrow> nat \<Rightarrow> nat list \<times> 'g) \<Rightarrow> 'g \<Rightarrow> int list \<Rightarrow> nat \<Rightarrow> int list \<times> 'g" where
  "rng_choice randint g a sz =
     (let (idx, g') = randint g (length a) sz in (map (\<lambda>i. a ! i) idx, g'))"

fun boot_loop ::
  "('g \<Rightarrow> nat \<Rightarrow> nat \<Rightarrow> nat list \<times> 'g) \<Rightarrow> (int \<times> real \<times> real) list \<Rightarrow> nat \<Rightarrow> 'g
     \<Rightarrow> error + boot_replicate list" where
  "boot_loop randint valid 0 g = Inr []"
| "boot_loop randint valid (Suc b) g =
     (let hh_arr = map fst valid;
          n_hh = length (np_unique hh_arr);
          hh_row_arrays = hh_to_rows hh_arr;
          hh_keys = map fst hh_row_arrays;
          (boot_hh_idx, g') = rng_choice randint g hh_keys n_hh
      in case lookup_rows hh_row_arrays boot_hh_idx of
           Inl e \<Rightarrow> Inl e
         | Inr arrays \<Rightarrow>
             (case np_concatenate arrays of
                Inl e \<Rightarrow> Inl e
              | Inr rows \<Rightarrow>
                  (let smp = map (\<lambda>i. snd (valid ! i)) rows in
                   case replicate_stats smp of
                     Inl e \<Rightarrow> Inl e
                   | Inr st \<Rightarrow>
                       (case boot_loop randint valid b g' of
                          Inl e \<Rightarrow> Inl e
                        | Inr rest \<Rightarrow>
                            Inr (\<lparr> boot_hh = boot_hh_idx, row_idx = rows,
                                    boot_sample = smp, boot_result = st \<rparr> # rest)))))"

text \<open>
  \<open>np.percentile(vals, q)\<close> with linear interpolation between the order statistics
  around position \<open>q/100 * (n - 1)\<close>; not-a-number on an empty array.
\<close>

definition np_percentile :: "real list \<Rightarrow> real \<Rightarrow> npfloat" where
  "np_percentile vals q =
     (if vals = [] then NaN
      else
        (let a = sort vals;
             h = q / 100 * real (length a - 1);
             lo = nat \<lfloor>h\<rfloor>;
             hi = min (lo + 1) (length a - 1)
         in Fin (a ! lo + (h - real lo) * (a ! hi - a ! lo))))"

record ci_row =
  ci_mean :: npfloat
  ci_std_error :: npfloat
  ci_lower :: npfloat
  ci_upper :: npfloat

definition ci_of :: "real list \<Rightarrow> ci_row" where
  "ci_of vals =
     \<lparr> ci_mean = np_mean (map Fin vals), ci_std_error = np_std 0 (map Fin vals),
       ci_lower = np_percentile vals 2.5, ci_upper = np_percentile vals 97.5 \<rparr>"

text \<open>The statistics in the order of \<open>stats_names\<close>.\<close>

definition stats_selectors :: "(boot_stats \<Rightarrow> real) list" where
  "stats_selectors =
     [bs_bottom_50_share, bs_bottom_50_mean_income, bs_top_10_share, bs_gini_approx]"

definition n_boot :: nat where
  "n_boot = 500"

text \<open>
  \<open>test_bootstrap_ci\<close> from the point where the microdata is loaded: \<open>g\<close> is the
  generator state that \<open>RandomState(42)\<close> starts from.  The result is the list of
  replicates and the table of confidence intervals, one row per statistic.
\<close>

definition bootstrap_ci ::
  "('g \<Rightarrow> nat \<Rightarrow> nat \<Rightarrow> nat list \<times> 'g) \<Rightarrow> 'g \<Rightarrow> micro_row list \<Rightarrow> nat
     \<Rightarrow> error + (boot_replicate list \<times> ci_row list)" where
  "bootstrap_ci randint g df nb =
     (case boot_loop randint (valid_rows df) nb g of
        Inl e \<Rightarrow> Inl e
      | Inr reps \<Rightarrow>
          Inr (reps, map (\<lambda>sel. ci_of (map (\<lambda>rep. sel (boot_result rep)) reps))
                         stats_selectors))"

definition test_bootstrap_ci ::
  "('g \<Rightarrow> nat \<Rightarrow> nat \<Rightarrow> nat list \<times> 'g) \<Rightarrow> 'g \<Rightarrow> micro_row list
     \<Rightarrow> error + (boot_replicate list \<times> ci_row list)" where
  "test_bootstrap_ci randint g df = bootstrap_ci randint g df n_boot"

text \<open>
  The cluster universe of a table: the distinct keys in order of first appearance, and
  for each key its member observations in row order.
\<close>

definition cluster_keys :: "(int \<times> real \<times> real) list \<Rightarrow> int list" where
  "cluster_keys valid = rev (remdups (rev (map fst valid)))"

definition cluster_members :: "(int \<times> real \<times> real) list \<Rightarrow> int \<Rightarrow> obs list" where
  "cluster_members valid hh = map snd (filter (\<lambda>r. fst r = hh) valid)"

text \<open>The row positions of a household in the table.\<close>

definition rows_of :: "(int \<times> real \<times> real) list \<Rightarrow> int \<Rightarrow> nat list" where
  "rows_of valid hh = filter (\<lambda>i. fst (valid ! i) = hh) [0..<length valid]"

text \<open>
  What a run draws and reports, without the row positions: per replicate the drawn
  keys, the sample and its statistics, and the table of confidence intervals.
\<close>

definition bootstrap_outcome ::
  "error + (boot_replicate list \<times> ci_row list)
     \<Rightarrow> error + ((int list \<times> obs list \<times> boot_stats) list \<times> ci_row list)" where
  "bootstrap_outcome res =
     (case res of
        Inl e \<Rightarrow> Inl e
      | Inr (reps, ci_tab) \<Rightarrow>
          Inr (map (\<lambda>rep. (boot_hh rep, boot_sample rep, boot_result rep)) reps, ci_tab))"

text \<open>The keys drawn in the first replicate, and the column of means of the interval table.\<close>

definition first_draw :: "error + (boot_replicate list \<times> ci_row list) \<Rightarrow> error + int list list" where
  "first_draw res = (case res of Inl e \<Rightarrow> Inl e | Inr (reps, ci_tab) \<Rightarrow> Inr (map boot_hh (take 1 reps)))"

definition ci_means :: "error + (boot_replicate list \<times> ci_row list) \<Rightarrow> error + npfloat list" where
  "ci_means res = (case res of Inl e \<Rightarrow> Inl e | Inr (reps, ci_tab) \<Rightarrow> Inr (map ci_mean ci_tab))"

section \<open>Properties of the structural-break test\<close>

subsection \<open>Facts about the numeric model\<close>

lemma fsum_Fin: "fsum (map Fin rs) = Fin (sum_list rs)"
  by (induction rs) (simp_all add: fsum_def)

lemma sumsq_pos:
  fixes xs :: "real list"
  assumes "xs \<noteq> []" "Max (set xs) \<noteq> Min (set xs)"
  shows "0 < (\<Sum>x\<leftarrow>xs. (x - m) * (x - m))"
proof -
  have nn: "0 \<le> (\<Sum>x\<leftarrow>xs. (x - m) * (x - m))"
    by (rule sum_list_nonneg) auto
  have "(\<Sum>x\<leftarrow>xs. (x - m) * (x - m)) \<noteq> 0"
  proof
    assume z: "(\<Sum>x\<leftarrow>xs. (x - m) * (x - m)) = 0"
    have "\<forall>v\<in>set (map (\<lambda>x. (x - m) * (x - m)) xs). v = 0"
      using z by (subst (asm) sum_list_nonneg_eq_0_iff) auto
    then have "\<forall>x\<in>set xs. x = m" by auto
    then have "set xs = {m}" using assms(1) by (cases xs) auto
    then show False using assms(2) by simp
  qed
  with nn show ?thesis by linarith
qed

lemma np_std_Fin:
  assumes "ddof < length rs"
  shows "np_std ddof (map Fin rs) =
         Fin (sqrt ((\<Sum>r\<leftarrow>rs. \<bar>r - sum_list rs / real (length rs)\<bar>
                              * \<bar>r - sum_list rs / real (length rs)\<bar>)
                    / real (length rs - ddof)))"
proof -
  have n0: "real (length rs) \<noteq> 0" and d0: "real (length rs - ddof) \<noteq> 0"
    using assms by auto
  have m: "np_mean (map Fin rs) = Fin (sum_list rs / real (length rs))"
    using n0 by (simp add: np_mean_def fsum_Fin)
  have sq: "map (\<lambda>x. fmul (fabs (fsub x (Fin c))) (fabs (fsub x (Fin c)))) (map Fin rs)
            = map Fin (map (\<lambda>r. \<bar>r - c\<bar> * \<bar>r - c\<bar>) rs)" for c
    by (simp add: fsub_def)
  have nn: "0 \<le> (\<Sum>r\<leftarrow>rs. \<bar>r - c\<bar> * \<bar>r - c\<bar>)" for c
    by (rule sum_list_nonneg) auto
  have "\<not> (\<Sum>r\<leftarrow>rs. \<bar>r - c\<bar> * \<bar>r - c\<bar>) / real (length rs - ddof) < 0" for c
    using nn[of c] by (simp add: not_less)
  then show ?thesis
    using d0 by (simp add: np_std_def Let_def m sq fsum_Fin del: map_map)
qed

subsection \<open>The regression on regular and on degenerate training samples\<close>

lemma residuals_Fin:
  "map2 (\<lambda>y p. fsub (Fin y) p) (map snd tr)
        (map (\<lambda>x. fadd (fmul (Fin s) (Fin x)) (Fin i)) (map fst tr))
   = map Fin (map (\<lambda>(x, y). y - (s * x + i)) tr)"
  by (induction tr) (auto simp: fsub_def)

lemma linregress_Fin:
  assumes "tr \<noteq> []" "Max (set (map fst tr)) \<noteq> Min (set (map fst tr))"
  shows "\<exists>s i. linregress tr = Inr (Fin s, Fin i)"
proof -
  let ?xs = "map fst tr"
  let ?n = "real (length tr)"
  have "0 < (\<Sum>x\<leftarrow>?xs. (x - sum_list ?xs / ?n) * (x - sum_list ?xs / ?n))"
    using assms by (intro sumsq_pos) auto
  moreover have "0 < ?n" using assms(1) by simp
  ultimately have
    "(\<Sum>x\<leftarrow>?xs. (x - sum_list ?xs / ?n) * (x - sum_list ?xs / ?n)) / ?n \<noteq> 0"
    by simp
  then show ?thesis
    using assms by (simp add: linregress_def Let_def fsub_def del: map_map)
qed

lemma linregress_identical:
  assumes "1 < length tr" "Max (set (map fst tr)) = Min (set (map fst tr))"
  shows "structural_break tr x_new y_actual = Inl ValueError"
proof -
  have "tr \<noteq> []" using assms(1) by auto
  then have "linregress tr = Inl ValueError"
    using assms by (simp add: linregress_def Let_def)
  then show ?thesis by (simp add: structural_break_def)
qed

lemma structural_break_one:
  "\<exists>r. structural_break [(a, b)] x_new y_actual = Inr r \<and> z_score r = Fin 0 \<and> \<not> is_outlier r"
  by (simp add: structural_break_def linregress_def Let_def np_std_def np_mean_def
                fsum_def fsub_def inf_of_sign_def)

lemma structural_break_two:
  assumes "a \<noteq> b"
  shows "\<exists>r. structural_break [(a, c), (b, d)] x_new y_actual = Inr r
             \<and> z_score r = Fin 0 \<and> \<not> is_outlier r"
proof -
  have mm: "max a b \<noteq> min a b" using assms by (auto simp: max_def min_def)
  have nz: "(a - (a + b) / 2) * (a - (a + b) / 2) + (b - (a + b) / 2) * (b - (a + b) / 2) \<noteq> 0"
    using assms by (simp add: add_nonneg_eq_0_iff)
  obtain s i where lr: "linregress [(a, c), (b, d)] = Inr (Fin s, Fin i)"
     and sdef: "s = ((a - (a + b) / 2) * (c - (c + d) / 2)
                     + (b - (a + b) / 2) * (d - (c + d) / 2)) / 2
               / (((a - (a + b) / 2) * (a - (a + b) / 2)
                     + (b - (a + b) / 2) * (b - (a + b) / 2)) / 2)"
     and idef: "i = (c + d) / 2 - s * ((a + b) / 2)"
    using mm nz by (simp add: linregress_def Let_def fsub_def)
  have ba: "b - a \<noteq> 0" using assms by simp
  have num: "((a - (a + b) / 2) * (c - (c + d) / 2)
               + (b - (a + b) / 2) * (d - (c + d) / 2)) / 2 = (d - c) * ((b - a) / 4)"
    by (simp add: field_simps)
  have den: "((a - (a + b) / 2) * (a - (a + b) / 2)
               + (b - (a + b) / 2) * (b - (a + b) / 2)) / 2 = (b - a) * ((b - a) / 4)"
    by (simp add: field_simps)
  have s2: "s = (d - c) / (b - a)"
    unfolding sdef num den using ba by simp
  have sb: "s * (b - a) = d - c" unfolding s2 using ba by simp
  have "c - (s * a + i) = ((c - d) + s * (b - a)) / 2"
    unfolding idef by (simp add: field_simps)
  then have r1: "c - (s * a + i) = 0" unfolding sb by simp
  have "d - (s * b + i) = ((d - c) - s * (b - a)) / 2"
    unfolding idef by (simp add: field_simps)
  then have r2: "d - (s * b + i) = 0" unfolding sb by simp
  have sd: "np_std 2 [Fin (c - (s * a + i)), Fin (d - (s * b + i))] = NaN"
    unfolding r1 r2 by (simp add: np_std_def np_mean_def fsum_def fsub_def inf_of_sign_def)
  have res: "map2 (\<lambda>y p. fsub (Fin y) p) (map snd [(a, c), (b, d)])
               (map (\<lambda>x. fadd (fmul (Fin s) (Fin x)) (Fin i)) (map fst [(a, c), (b, d)]))
             = [Fin (c - (s * a + i)), Fin (d - (s * b + i))]"
    by (simp add: fsub_def)
  have sp: "fmul NaN v = NaN" for v by simp
  show ?thesis
    unfolding structural_break_def lr Let_def sum.case prod.case res sd sp
    by simp
qed

subsection \<open>C1: degenerate training samples\<close>

text \<open>
  C1 as stated: with fewer than three training observations, or a single distinct
  \<open>x\<close> value, the test raises an error and never returns \<open>z = 0\<close>.  At two
  observations with distinct \<open>x\<close> the fit is exact, the residual standard deviation
  with \<open>ddof = 2\<close> is \<open>0/0\<close>, the comparison \<open>se_pred > 0\<close> is false and the
  guard returns \<open>z = 0\<close>: a held-out point 20 units off the trend is reported
  as within trend, and nothing is raised.
\<close>

theorem structural_break_silent_zero_counterexample:
  "structural_break [(2016, 1), (2017, 2)] 2025 30 =
     Inr \<lparr> slope_pre = Fin 1, intercept_pre = Fin (- 2015), predicted = Fin 10,
            residual = Fin 20, se_resid = NaN, se_pred = NaN, z_score = Fin 0,
            is_outlier = False \<rparr>"
  by (simp add: structural_break_def linregress_def Let_def np_std_def np_mean_def
                fsum_def fsub_def inf_of_sign_def)

text \<open>
  C1 as amended: on a training sample with fewer than three observations or with a
  single distinct \<open>x\<close> value, the test fails (with the regression's
  \<open>ValueError\<close>) exactly when the sample is empty or has at least two observations
  sharing one \<open>x\<close> value; on every other such sample (one observation, or two with
  distinct \<open>x\<close>) it returns \<open>z = 0\<close>, classified as within trend.
\<close>

theorem structural_break_degenerate:
  assumes "length tr < 3 \<or> Max (set (map fst tr)) = Min (set (map fst tr))"
  shows "if tr = [] \<or> (1 < length tr \<and> Max (set (map fst tr)) = Min (set (map fst tr)))
         then structural_break tr x_new y_actual = Inl ValueError
         else (\<exists>r. structural_break tr x_new y_actual = Inr r
                   \<and> z_score r = Fin 0 \<and> \<not> is_outlier r)"
proof (cases "tr = []")
  case True
  then show ?thesis by (simp add: structural_break_def linregress_def)
next
  case ne: False
  show ?thesis
  proof (cases "1 < length tr \<and> Max (set (map fst tr)) = Min (set (map fst tr))")
    case True
    then show ?thesis using linregress_identical by simp
  next
    case nid: False
    have l0: "0 < length tr" using ne by simp
    have short: "length tr = 1 \<or> (length tr = 2 \<and>
        Max (set (map fst tr)) \<noteq> Min (set (map fst tr)))"
      using assms nid l0 by (cases "Max (set (map fst tr)) = Min (set (map fst tr))") arith+
    show ?thesis
    proof (cases "length tr = 1")
      case True
      then obtain a b where "tr = [(a, b)]"
        by (cases tr) auto
      then show ?thesis using structural_break_one[of a b] by simp
    next
      case False
      with short have l2: "length tr = 2"
        and d: "Max (set (map fst tr)) \<noteq> Min (set (map fst tr))" by auto
      from l2 obtain a c b d' where tr: "tr = [(a, c), (b, d')]"
        by (cases tr; cases "tl tr") auto
      with d have "a \<noteq> b" by auto
      then show ?thesis using structural_break_two[of a b c d'] tr d by simp
    qed
  qed
qed

theorem structural_break_degenerate_witness:
  "(length [(2016::real, 1::real), (2017, 2)] < 3
      \<or> Max (set (map fst [(2016::real, 1::real), (2017, 2)]))
          = Min (set (map fst [(2016::real, 1::real), (2017, 2)])))
   \<and> (\<exists>r. structural_break [(2016, 1), (2017, 2)] 2025 30 = Inr r
            \<and> z_score r = Fin 0 \<and> \<not> is_outlier r)"
  using structural_break_degenerate[of "[(2016, 1), (2017, 2)]" 2025 30] by simp

subsection \<open>C3: the prediction standard error against the residual standard deviation\<close>

text \<open>
  C3 as stated: for every training sample with at least three observations the
  prediction standard error is strictly greater than the residual standard deviation
  of the training fit.  On three collinear points the residual standard deviation is
  0 and so is the prediction standard error.
\<close>

theorem se_pred_not_strict_counterexample:
  "structural_break [(0, 0), (1, 1), (2, 2)] 3 5 =
     Inr \<lparr> slope_pre = Fin 1, intercept_pre = Fin 0, predicted = Fin 3, residual = Fin 2,
            se_resid = Fin 0, se_pred = Fin 0, z_score = Fin 0, is_outlier = False \<rparr>
   \<and> \<not> fgt (Fin 0) (Fin 0)"
  by (simp add: structural_break_def linregress_def Let_def np_std_def np_mean_def
                fsum_def fsub_def)

text \<open>
  C3 as amended: for every training sample with at least three observations whose
  \<open>x\<close> values are not all identical, and every held-out \<open>x_new\<close>, the test
  returns finite standard errors with
  \<open>se_pred = se_resid * sqrt (1 + 1/n + (x_new - x_mean)\<^sup>2 / \<Sum>(x_i - x_mean)\<^sup>2)\<close>,
  \<open>se_pred \<ge> se_resid\<close>, and \<open>se_pred > se_resid\<close> whenever the residual standard
  deviation is positive.
\<close>

theorem se_pred_ge_se_resid:
  assumes n3: "3 \<le> length tr"
      and nid: "Max (set (map fst tr)) \<noteq> Min (set (map fst tr))"
  shows "\<exists>r sr sp. structural_break tr x_new y_actual = Inr r
           \<and> se_resid r = Fin sr \<and> se_pred r = Fin sp \<and> 0 \<le> sr
           \<and> sp = sr * sqrt (1 + 1 / real (length tr)
                    + (x_new - sum_list (map fst tr) / real (length tr)) ^ 2
                      / (\<Sum>x\<leftarrow>map fst tr. (x - sum_list (map fst tr) / real (length tr)) ^ 2))
           \<and> sr \<le> sp \<and> (0 < sr \<longrightarrow> sr < sp)"
proof -
  let ?xs = "map fst tr"
  let ?n = "real (length tr)"
  let ?xbar = "sum_list ?xs / ?n"
  let ?ssx = "(\<Sum>x\<leftarrow>?xs. (x - ?xbar) ^ 2)"
  have ne: "tr \<noteq> []" using n3 by auto
  obtain s i where lr: "linregress tr = Inr (Fin s, Fin i)"
    using linregress_Fin[OF ne nid] by blast
  let ?rs = "map (\<lambda>(x, y). y - (s * x + i)) tr"
  have len: "2 < length ?rs" using n3 by simp
  let ?v = "(\<Sum>r\<leftarrow>?rs. \<bar>r - sum_list ?rs / real (length ?rs)\<bar>
                              * \<bar>r - sum_list ?rs / real (length ?rs)\<bar>)
             / real (length ?rs - 2)"
  define sr where "sr = sqrt ?v"
  have sr: "np_std 2 (map Fin ?rs) = Fin sr"
    unfolding sr_def by (rule np_std_Fin[OF len])
  have "0 \<le> (\<Sum>r\<leftarrow>?rs. \<bar>r - sum_list ?rs / real (length ?rs)\<bar>
                              * \<bar>r - sum_list ?rs / real (length ?rs)\<bar>)"
    by (rule sum_list_nonneg) auto
  then have "0 \<le> ?v" by simp
  then have sr0: "0 \<le> sr" unfolding sr_def by simp
  have "0 < (\<Sum>x\<leftarrow>?xs. (x - ?xbar) * (x - ?xbar))"
    using ne nid by (intro sumsq_pos) auto
  then have ssx: "0 < ?ssx" by (simp add: power2_eq_square)
  let ?lev = "(x_new - ?xbar) ^ 2 / ?ssx"
  have lev0: "0 \<le> ?lev" using ssx by simp
  have npos: "0 < ?n" using ne by simp
  let ?q = "1 + 1 / ?n + ?lev"
  have q1: "1 < ?q" using lev0 npos by (simp add: add_pos_nonneg)
  then have sq1: "1 < sqrt ?q" by simp
  let ?sp = "sr * sqrt ?q"
  have ge: "sr \<le> ?sp" using sr0 sq1 by (simp add: mult_le_cancel_left1)
  have gt: "0 < sr \<longrightarrow> sr < ?sp" using sq1 by simp
  have q0: "\<not> ?q < 0" using q1 by linarith
  have sp: "fmul (Fin sr) (fsqrt (fadd (Fin (1 + 1 / ?n))
              (fdiv (Fin ((x_new - ?xbar) ^ 2)) (Fin ?ssx)))) = Fin ?sp"
    using ssx q0 by simp
  show ?thesis
    unfolding structural_break_def lr Let_def sum.case prod.case residuals_Fin sr length_map sp
    using sr0 ge gt by simp
qed

theorem se_pred_ge_se_resid_witness:
  "3 \<le> length [(0::real, 0::real), (1, 1), (2, 3)]
   \<and> Max (set (map fst [(0::real, 0::real), (1, 1), (2, 3)]))
       \<noteq> Min (set (map fst [(0::real, 0::real), (1, 1), (2, 3)]))
   \<and> (\<exists>r sr sp. structural_break [(0, 0), (1, 1), (2, 3)] 3 5 = Inr r
           \<and> se_resid r = Fin sr \<and> se_pred r = Fin sp \<and> 0 \<le> sr
           \<and> sr \<le> sp \<and> (0 < sr \<longrightarrow> sr < sp))"
proof -
  have h1: "3 \<le> length [(0::real, 0::real), (1, 1), (2, 3)]" by simp
  have h2: "Max (set (map fst [(0::real, 0::real), (1, 1), (2, 3)]))
       \<noteq> Min (set (map fst [(0::real, 0::real), (1, 1), (2, 3)]))" by simp
  from se_pred_ge_se_resid[OF h1 h2, of 3 5]
  obtain r sr sp where "structural_break [(0, 0), (1, 1), (2, 3)] 3 5 = Inr r"
    "se_resid r = Fin sr" "se_pred r = Fin sp" "0 \<le> sr" "sr \<le> sp" "0 < sr \<longrightarrow> sr < sp"
    by blast
  with h1 h2 show ?thesis by blast
qed

section \<open>Properties of the attribution and the welfare weighting\<close>


lemma stratum_impact_guard:
  "population (stratum_impact pops q spend tariff) = get_or (pops q) 1
   \<and> per_person (stratum_impact pops q spend tariff) =
       (if 0 < population (stratum_impact pops q spend tariff)
        then total_impact_B (stratum_impact pops q spend tariff) * 1000000000
             / population (stratum_impact pops q spend tariff)
        else 0)"
  by (simp add: stratum_impact_def Let_def)









subsection \<open>C9: strata with non-positive population or income\<close>




section \<open>Properties of the weighted distributional statistics\<close>

subsection \<open>Cumulative sums and the ranking\<close>

lemma length_cumsum_from [simp]: "length (cumsum_from a ws) = length ws"
  by (induction ws arbitrary: a) simp_all

lemma cumsum_Nil_iff: "cumsum xs = [] \<longleftrightarrow> xs = []"
  by (cases xs) (simp_all add: cumsum_def)










subsection \<open>C7: quintile membership and the five quintile shares\<close>




subsection \<open>C8: the order in which observations are supplied\<close>

text \<open>
  C8 as stated: every permutation of the observations yields the same aggregate group
  shares, and the order of value ties changes no share.  Two observations with the
  same income and weights 1 and 3: supplied in one order the bottom-50 share is 25
  percent, supplied in the other it is 0.
\<close>

theorem tie_order_counterexample:
  "mset [(1 :: real, 1 :: real), (1, 3)] = mset [(1 :: real, 3 :: real), (1, 1)]
   \<and> compute_income_shares [(1, 1), (1, 3)]
       = Some \<lparr> bottom_50_share = 25, middle_40_share = 0, top_10_share = 75,
                top_1_share = 75, total = 4 \<rparr>
   \<and> compute_income_shares [(1, 3), (1, 1)]
       = Some \<lparr> bottom_50_share = 0, middle_40_share = 75, top_10_share = 25,
                top_1_share = 25, total = 4 \<rparr>"
  by (simp add: compute_income_shares_def weighted_quantile_rank_def cumsum_def Let_def
                group_total_def add_mset_commute)

text \<open>
  C8 as amended: for every weighted sample in which positive-weight observations with
  equal values also have equal weights (in particular when all values are distinct),
  every permutation of the order of the observations yields the same ranking and
  therefore the same income shares, quintile shares and quintile head counts.
\<close>

theorem rank_order_invariant:
  assumes perm: "mset xs = mset ys"
      and ties: "inj_on fst (set (filter (\<lambda>(v, w). 0 < w) xs))"
  shows "weighted_quantile_rank xs = weighted_quantile_rank ys
       \<and> compute_income_shares xs = compute_income_shares ys
       \<and> (\<forall>k. quintile_share xs k = quintile_share ys k
              \<and> quintile_persons xs k = quintile_persons ys k)"
proof -
  let ?vx = "filter (\<lambda>(v, w). 0 < w) xs"
  let ?vy = "filter (\<lambda>(v, w). 0 < w) ys"
  have "mset ?vx = mset ?vy" using perm by simp
  then have m: "mset ?vx = mset (sort_key fst ?vy)" by simp
  have "sort_key fst ?vx = sort_key fst ?vy"
    using m ties by (rule sort_key_inj_key_eq) simp
  then have r: "weighted_quantile_rank xs = weighted_quantile_rank ys"
    by (simp add: weighted_quantile_rank_def)
  then show ?thesis
    by (simp add: compute_income_shares_def quintile_share_def quintile_persons_def)
qed

theorem rank_order_invariant_witness:
  "mset [(10 :: real, 1 :: real), (30, 3)] = mset [(30 :: real, 3 :: real), (10, 1)]
   \<and> inj_on fst (set (filter (\<lambda>(v, w). 0 < w) [(10 :: real, 1 :: real), (30, 3)]))
   \<and> compute_income_shares [(10, 1), (30, 3)] = compute_income_shares [(30, 3), (10, 1)]"
proof -
  have h1: "mset [(10 :: real, 1 :: real), (30, 3)] = mset [(30 :: real, 3 :: real), (10, 1)]"
    by (simp add: add_mset_commute)
  have h2: "inj_on fst (set (filter (\<lambda>(v, w). 0 < w) [(10 :: real, 1 :: real), (30, 3)]))"
    by simp
  show ?thesis
    using rank_order_invariant[OF h1 h2] h1 h2 by blast
qed

subsection \<open>The Lorenz sum on equal incomes\<close>

text \<open>
  When all incomes are equal and positive the expression evaluates to
  \<open>- \<Sum>w\<^sub>i\<^sup>2 / (\<Sum>w\<^sub>i)\<^sup>2\<close>, a negative number, whatever the positive weights.
\<close>

lemma cumsum_from_scale:
  "cumsum_from (v * a) (map ((*) v) ws) = map ((*) v) (cumsum_from a ws)"
proof (induction ws arbitrary: a)
  case Nil
  then show ?case by simp
next
  case (Cons w ws)
  have "v * a + v * w = v * (a + w)" by (simp add: distrib_left)
  then show ?case using Cons[of "a + w"] by simp
qed

lemma last_cumsum_from:
  "ws \<noteq> [] \<Longrightarrow> last (cumsum_from a ws) = a + sum_list ws"
proof (induction ws arbitrary: a)
  case Nil
  then show ?case by simp
next
  case (Cons w ws)
  show ?case
  proof (cases "ws = []")
    case True
    then show ?thesis by simp
  next
    case False
    then have "cumsum_from (a + w) ws \<noteq> []" by (cases ws) simp_all
    then show ?thesis using Cons.IH[OF False, of "a + w"] by (simp add: add.assoc)
  qed
qed

lemma lorenz_pairs:
  "2 * (\<Sum>(c, w) \<leftarrow> zip (cumsum_from a ws) ws. c * w)
     = (a + sum_list ws) ^ 2 - a ^ 2 + (\<Sum>w\<leftarrow>ws. w ^ 2)"
proof (induction ws arbitrary: a)
  case Nil
  then show ?case by simp
next
  case (Cons w ws)
  have "2 * (\<Sum>(c, w) \<leftarrow> zip (cumsum_from a (w # ws)) (w # ws). c * w)
        = 2 * ((a + w) * w) + 2 * (\<Sum>(c, w) \<leftarrow> zip (cumsum_from (a + w) ws) ws. c * w)"
    by simp
  also have "\<dots> = 2 * ((a + w) * w) + ((a + w + sum_list ws) ^ 2 - (a + w) ^ 2 + (\<Sum>w\<leftarrow>ws. w ^ 2))"
    unfolding Cons.IH by (rule refl)
  also have "\<dots> = (a + sum_list (w # ws)) ^ 2 - a ^ 2 + (\<Sum>w\<leftarrow>w # ws. w ^ 2)"
    by (simp add: power2_eq_square algebra_simps)
  finally show ?case .
qed

lemma gini_approx_equal_values:
  assumes ne: "ws \<noteq> []" and pos: "\<forall>w \<in> set ws. 0 < w" and v: "0 < v"
  shows "gini_approx (map (\<lambda>w. (v, w)) ws) = Inr (- (\<Sum>w\<leftarrow>ws. w ^ 2) / (sum_list ws) ^ 2)"
    and "- (\<Sum>w\<leftarrow>ws. w ^ 2) / (sum_list ws) ^ 2 < 0"
proof -
  let ?smp = "map (\<lambda>w. (v, w)) ws"
  let ?W = "sum_list ws"
  have "sorted (map fst ?smp)" by (simp add: o_def sorted_wrt_iff_nth_less)
  then have srt: "sort_key fst ?smp = ?smp" by (rule sort_key_id_if_sorted)
  have ws: "map snd ?smp = ws" by (simp add: o_def)
  have iw: "map2 (*) (map fst ?smp) ws = map ((*) v) ws"
    by (induction ws) simp_all
  have W: "0 < ?W"
  proof -
    obtain w ws' where e: "ws = w # ws'" using ne by (cases ws) auto
    have "0 \<le> sum_list ws'" by (rule sum_list_nonneg) (use pos e in \<open>auto intro: less_imp_le\<close>)
    moreover have "0 < w" using pos e by simp
    ultimately show ?thesis using e by simp
  qed
  have sq: "0 < (\<Sum>w\<leftarrow>ws. w ^ 2)"
  proof -
    obtain w ws' where e: "ws = w # ws'" using ne by (cases ws) auto
    then have "0 < w" using pos by simp
    then have "0 < w ^ 2" by simp
    moreover have "0 \<le> (\<Sum>w\<leftarrow>ws'. w ^ 2)" by (rule sum_list_nonneg) auto
    ultimately have "0 < w ^ 2 + (\<Sum>w\<leftarrow>ws'. w ^ 2)" by (rule add_pos_nonneg)
    then show ?thesis unfolding e by simp
  qed
  have cne: "cumsum ws \<noteq> []" using ne by (cases ws) (simp_all add: cumsum_def)
  have lastw: "last (cumsum ws) = ?W" using last_cumsum_from[OF ne, of 0] by (simp add: cumsum_def)
  have tot: "sum_list (map ((*) v) ws) = v * ?W" by (simp add: sum_list_const_mult)
  have ci: "cumsum (map ((*) v) ws) = map ((*) v) (cumsum ws)"
    using cumsum_from_scale[of v 0 ws] by (simp add: cumsum_def)
  have lz: "(\<Sum>(ci, w) \<leftarrow> zip (map ((*) v) (cumsum ws)) ws. ci / (v * ?W) * w / ?W)
              = (\<Sum>(c, w) \<leftarrow> zip (cumsum ws) ws. c * w) / (?W * ?W)"
  proof -
    have "(\<Sum>(ci, w) \<leftarrow> zip (map ((*) v) (cumsum ws)) ws. ci / (v * ?W) * w / ?W)
          = (\<Sum>(c, w) \<leftarrow> zip (cumsum ws) ws. c * w * (1 / (?W * ?W)))"
      unfolding zip_map1 map_map
      by (rule arg_cong[where f = sum_list], rule map_cong) (use v in \<open>auto simp: field_simps\<close>)
    also have "\<dots> = (\<Sum>(c, w) \<leftarrow> zip (cumsum ws) ws. c * w) * (1 / (?W * ?W))"
      unfolding sum_list_mult_const[symmetric]
      by (rule arg_cong[where f = sum_list], rule map_cong) auto
    finally show ?thesis by simp
  qed
  have two: "2 * (\<Sum>(c, w) \<leftarrow> zip (cumsum ws) ws. c * w) = ?W ^ 2 + (\<Sum>w\<leftarrow>ws. w ^ 2)"
    using lorenz_pairs[of 0 ws] by (simp add: cumsum_def)
  have "lorenz_gini (map ((*) v) (cumsum ws)) ws (v * ?W) ?W
        = 1 - (?W ^ 2 + (\<Sum>w\<leftarrow>ws. w ^ 2)) / (?W * ?W)"
    unfolding lorenz_gini_def lz two[symmetric] by simp
  also have "\<dots> = - (\<Sum>w\<leftarrow>ws. w ^ 2) / ?W ^ 2"
    using W by (simp add: power2_eq_square field_simps)
  finally have g: "lorenz_gini (map ((*) v) (cumsum ws)) ws (v * ?W) ?W
        = - (\<Sum>w\<leftarrow>ws. w ^ 2) / ?W ^ 2" .
  have vW: "0 < v * ?W" using v W by simp
  show "gini_approx ?smp = Inr (- (\<Sum>w\<leftarrow>ws. w ^ 2) / ?W ^ 2)"
    unfolding gini_approx_def Let_def srt ws iw tot ci lastw
    using cne vW W g by simp
  show "- (\<Sum>w\<leftarrow>ws. w ^ 2) / ?W ^ 2 < 0"
    using sq W by (simp add: divide_neg_pos)
qed

lemma state_gini_as_gini_approx:
  assumes len: "50 \<le> length smp" and g: "gini_approx smp = Inr x" and x: "x \<noteq> 0"
  shows "state_gini smp = Some x"
proof -
  let ?s = "sort_key fst smp"
  let ?iw = "map2 (*) (map fst ?s) (map snd ?s)"
  let ?G = "0 < sum_list ?iw \<and> 0 < last (cumsum (map snd ?s))"
  let ?L = "lorenz_gini (cumsum ?iw) (map snd ?s) (sum_list ?iw) (last (cumsum (map snd ?s)))"
  have ne: "smp \<noteq> []" using len by auto
  then have sne: "?s \<noteq> []" by (metis length_0_conv length_sort)
  then have c: "cumsum (map snd ?s) \<noteq> []" by (simp add: cumsum_Nil_iff)
  have ne2: "?iw \<noteq> []" using sne by (cases ?s) simp_all
  have l: "last (cumsum ?iw) = sum_list ?iw"
    using last_cumsum_from[OF ne2, of 0] by (simp add: cumsum_def)
  have ga: "gini_approx smp = Inr (if ?G then ?L else 0)"
    unfolding gini_approx_def Let_def using c by simp
  then have G: ?G and xl: "x = ?L" using g x by (auto split: if_splits)
  have nl: "\<not> length smp < 50" using len by simp
  have "state_gini smp = (if ?G then Some ?L else None)"
    unfolding state_gini_def Let_def l using nl by simp
  then show ?thesis using G xl by simp
qed

lemma state_gini_equal_values:
  assumes len: "50 \<le> length ws" and pos: "\<forall>w \<in> set ws. 0 < w" and v: "0 < v"
  shows "state_gini (map (\<lambda>w. (v, w)) ws) = Some (- (\<Sum>w\<leftarrow>ws. w ^ 2) / (sum_list ws) ^ 2)"
proof -
  have ne: "ws \<noteq> []" using len by auto
  have g: "gini_approx (map (\<lambda>w. (v, w)) ws) = Inr (- (\<Sum>w\<leftarrow>ws. w ^ 2) / (sum_list ws) ^ 2)"
    using ne pos v by (rule gini_approx_equal_values)
  have neg: "- (\<Sum>w\<leftarrow>ws. w ^ 2) / (sum_list ws) ^ 2 < 0"
    using ne pos v by (rule gini_approx_equal_values)
  then have "- (\<Sum>w\<leftarrow>ws. w ^ 2) / (sum_list ws) ^ 2 \<noteq> 0" by (rule less_imp_neq)
  moreover have "50 \<le> length (map (\<lambda>w. (v, w)) ws)" using len by simp
  ultimately show ?thesis using g by (intro state_gini_as_gini_approx)
qed

subsection \<open>C2: the approximate Gini coefficient on equal incomes\<close>

text \<open>
  C2: the Gini coefficient lies in [0, 1] for non-negative values and is exactly 0 when
  all values are equal.  The code evaluated on samples of equal incomes: two
  observations of weight 1 give the Lorenz sum \<open>1/2 * 1/2 + 1 * 1/2\<close> and the
  result \<open>- 1/2\<close>; a single observation gives \<open>- 1\<close>; the state-level entry for
  fifty persons with the same income and weight is \<open>- 1/50\<close>.
\<close>

theorem gini_approx_equal_incomes_negative:
  "gini_approx [(50000, 1), (50000, 1)] = Inr (- 1 / 2)
   \<and> gini_approx [(3, 2)] = Inr (- 1)
   \<and> state_gini (replicate 50 (30000, 1)) = Some (- 1 / 50)"
proof -
  have a: "gini_approx [(50000, 1), (50000, 1)] = Inr (- 1 / 2)"
    and b: "gini_approx [(3, 2)] = Inr (- 1)"
    by (simp_all add: gini_approx_def cumsum_def lorenz_gini_def Let_def)
  have "state_gini (map (\<lambda>w. (30000, w)) (replicate 50 1))
        = Some (- (\<Sum>w\<leftarrow>replicate 50 (1::real). w ^ 2) / (sum_list (replicate 50 1)) ^ 2)"
    by (rule state_gini_equal_values) simp_all
  then have c: "state_gini (replicate 50 (30000, 1)) = Some (- 1 / 50)"
    by (simp add: sum_list_replicate)
  show ?thesis using a b c by simp
qed

section \<open>Properties of the interrupted time series\<close>

lemma takeWhile_shorter:
  "\<exists>x \<in> set xs. \<not> P x \<Longrightarrow> length (takeWhile P xs) < length xs"
  by (induction xs) auto

lemma argmax_intervention:
  fixes d :: int
  assumes "idx \<noteq> []"
  shows "\<exists>am. argmax (map (\<lambda>t. if d \<le> t then 1 else 0) idx) = Inr am
           \<and> ((\<exists>t \<in> set idx. d \<le> t) \<longrightarrow> am = length (takeWhile (\<lambda>t. t < d) idx))"
proof (cases "\<exists>t \<in> set idx. d \<le> t")
  case True
  let ?iv = "map (\<lambda>t. if d \<le> t then (1::int) else 0) idx"
  have "(1::int) \<in> set ?iv" using True by force
  moreover have "\<forall>x \<in> set ?iv. x \<le> 1" by auto
  ultimately have mx: "Max (set ?iv) = 1" by (intro Max_eqI) auto
  have tw: "takeWhile (\<lambda>x. x \<noteq> 1) ?iv = map (\<lambda>t. if d \<le> t then 1 else 0) (takeWhile (\<lambda>t. t < d) idx)"
    unfolding takeWhile_map by (rule arg_cong[where f = "map _"], rule takeWhile_cong) auto
  have "?iv \<noteq> []" using assms by simp
  then show ?thesis using True unfolding argmax_def mx tw by simp
next
  case False
  then show ?thesis using assms by (simp add: argmax_def)
qed

lemma before_first_post:
  assumes "i < length (takeWhile (\<lambda>t. t < d) idx)"
  shows "idx ! i < (d::int)"
proof -
  have "takeWhile (\<lambda>t. t < d) idx ! i \<in> set (takeWhile (\<lambda>t. t < d) idx)"
    using assms by simp
  then have "takeWhile (\<lambda>t. t < d) idx ! i < d" by (rule set_takeWhileD[THEN conjunct2])
  then show ?thesis using assms by (simp add: takeWhile_nth)
qed

lemma is_const_col_iff:
  "is_const_col c \<longleftrightarrow> c \<noteq> [] \<and> (\<exists>v. v \<noteq> 0 \<and> (\<forall>x \<in> set c. x = v))"
proof
  assume a: "is_const_col c"
  define M where "M = Max (set c)"
  define m where "m = Min (set c)"
  from a have ne: "c \<noteq> []" and rg: "M - m = 0" and nz: "\<exists>x \<in> set c. x \<noteq> 0"
    unfolding is_const_col_def M_def m_def by blast+
  have all: "\<forall>x \<in> set c. x = M"
  proof
    fix x assume x: "x \<in> set c"
    have "m \<le> x" unfolding m_def using x by (intro Min_le) simp_all
    moreover have "x \<le> M" unfolding M_def using x by (intro Max_ge) simp_all
    ultimately show "x = M" using rg by linarith
  qed
  obtain x where x: "x \<in> set c" "x \<noteq> 0" using nz by blast
  have "x = M" using all x(1) by (rule bspec)
  then have "M \<noteq> 0" using x(2) by simp
  then have "M \<noteq> 0 \<and> (\<forall>x \<in> set c. x = M)" using all by (rule conjI)
  then have "\<exists>v. v \<noteq> 0 \<and> (\<forall>x \<in> set c. x = v)" by (rule exI)
  then show "c \<noteq> [] \<and> (\<exists>v. v \<noteq> 0 \<and> (\<forall>x \<in> set c. x = v))" using ne by (rule conjI[rotated])
next
  assume "c \<noteq> [] \<and> (\<exists>v. v \<noteq> 0 \<and> (\<forall>x \<in> set c. x = v))"
  then obtain v where ne: "c \<noteq> []" and v: "v \<noteq> 0" and all: "\<forall>x \<in> set c. x = v" by blast
  obtain x where x: "x \<in> set c" using ne by (cases c) auto
  have "x = v" using all x by (rule bspec)
  then have vin: "v \<in> set c" using x by simp
  have sc: "set c = {v}"
  proof (rule set_eqI)
    fix y
    show "y \<in> set c \<longleftrightarrow> y \<in> {v}"
    proof
      assume "y \<in> set c"
      with all have "y = v" by (rule bspec)
      then show "y \<in> {v}" by simp
    next
      assume "y \<in> {v}"
      then show "y \<in> set c" using vin by simp
    qed
  qed
  have "Max (set c) - Min (set c) = 0" unfolding sc by simp
  moreover have "\<exists>x \<in> set c. x \<noteq> 0" unfolding sc using v by simp
  ultimately show "is_const_col c" unfolding is_const_col_def using ne by blast
qed

lemma not_const_col_zero:
  assumes z: "0 \<in> set c"
  shows "\<not> is_const_col c"
proof
  assume "is_const_col c"
  then obtain v where v: "v \<noteq> 0" and all: "\<forall>x \<in> set c. x = v"
    unfolding is_const_col_iff by blast
  have "0 = v" using all z by (rule bspec)
  then show False using v by simp
qed

lemma first_post:
  fixes d :: int
  assumes "\<exists>t \<in> set idx. d \<le> t"
  shows "length (takeWhile (\<lambda>t. t < d) idx) < length idx
       \<and> d \<le> idx ! length (takeWhile (\<lambda>t. t < d) idx)"
proof -
  have "\<exists>t \<in> set idx. \<not> t < d" using assms by (simp add: not_less)
  then have l: "length (takeWhile (\<lambda>t. t < d) idx) < length idx" by (rule takeWhile_shorter)
  then have "\<not> idx ! length (takeWhile (\<lambda>t. t < d) idx) < d" by (rule nth_length_takeWhile)
  then show ?thesis using l by simp
qed

text \<open>The fit request in closed form.\<close>

lemma its_request_eq:
  fixes s :: "(timestamp \<times> real) list" and d :: timestamp
  assumes ne: "s \<noteq> []"
  shows "its_request pw s d =
     Inr \<lparr> endog = map snd s,
           exog_names = (if (\<exists>t \<in> set (map fst s). t < d) then [''const''] else [])
                        @ [''time'', ''intervention'', ''time_after''],
           exog = map (\<lambda>i. (if (\<exists>t \<in> set (map fst s). t < d) then [1] else [])
                           @ [real_of_int (int i),
                              real_of_int (if d \<le> map fst s ! i then 1 else 0),
                              real_of_int (if d \<le> map fst s ! i
                                 then int i - int (length (takeWhile (\<lambda>t. t < d) (map fst s)))
                                 else 0)])
                      [0..<length s],
           cov_type = HAC (max_lags (pw (length s))) \<rparr>"
proof -
  let ?idx = "map fst s"
  let ?p = "length (takeWhile (\<lambda>t. t < d) ?idx)"
  let ?c = "\<exists>t \<in> set ?idx. t < d"
  let ?iv = "map (\<lambda>t. if d \<le> t then (1::int) else 0) ?idx"
  let ?tv = "map int [0..<length s]"
  have ne': "?idx \<noteq> []" using ne by simp
  obtain am where am: "argmax ?iv = Inr am"
    and amv: "(\<exists>t \<in> set ?idx. d \<le> t) \<longrightarrow> am = ?p"
    using argmax_intervention[OF ne', of d] by auto
  have plt0: "(\<exists>t \<in> set ?idx. d \<le> t) \<longrightarrow> ?p < length ?idx \<and> d \<le> ?idx ! ?p"
    using first_post[of ?idx d] by blast
  have plt: "(\<exists>t \<in> set ?idx. d \<le> t) \<longrightarrow> ?p < length s \<and> d \<le> ?idx ! ?p"
    using plt0 by (simp del: nth_map)
  have amlt: "(\<exists>t \<in> set ?idx. d \<le> t) \<longrightarrow> am < length s"
    using plt amv by simp
  let ?ta = "map2 (\<lambda>i t. if i \<noteq> 0 then t - ?tv ! am else 0) ?iv ?tv"
  let ?TB = "map (\<lambda>i. if d \<le> fst (s ! i) then int i - int am else 0) [0..<length s]"
  let ?TA = "map (\<lambda>i. if d \<le> ?idx ! i then int i - int ?p else 0) [0..<length s]"
  have ta0: "?ta = ?TB"
  proof (rule nth_equalityI)
    show "length ?ta = length ?TB" by simp
  next
    fix i assume "i < length ?ta"
    then have i: "i < length s" by simp
    show "?ta ! i = ?TB ! i"
    proof (cases "d \<le> fst (s ! i)")
      case True
      then have "\<exists>t \<in> set ?idx. d \<le> t" using i by (auto intro!: bexI[where x = "s ! i"])
      then have "am < length s" using amlt by simp
      then show ?thesis using i True by simp
    next
      case False
      then show ?thesis using i by simp
    qed
  qed
  have ta1: "?TB = ?TA"
  proof (rule map_cong[OF refl])
    fix i assume "i \<in> set [0..<length s]"
    then have i: "i < length s" by simp
    show "(if d \<le> fst (s ! i) then int i - int am else 0)
        = (if d \<le> ?idx ! i then int i - int ?p else 0)"
    proof (cases "d \<le> fst (s ! i)")
      case True
      then have "\<exists>t \<in> set ?idx. d \<le> t" using i by (auto intro!: bexI[where x = "s ! i"])
      then have e: "int am = int ?p" using amv by simp
      have "d \<le> ?idx ! i" using True i by simp
      then show ?thesis unfolding e using True by simp
    next
      case False
      then have "\<not> d \<le> ?idx ! i" using i by simp
      then show ?thesis using False by simp
    qed
  qed
  have ta: "?ta = ?TA" using ta0 ta1 by (rule trans)
  have c1: "\<not> is_const_col ?tv"
  proof (rule not_const_col_zero)
    have "0 < length s" using ne by simp
    then have "int 0 \<in> set ?tv" unfolding set_map by (intro imageI) simp
    then show "0 \<in> set ?tv" by simp
  qed
  have c3: "\<not> is_const_col ?TA"
  proof (rule not_const_col_zero)
    show "0 \<in> set ?TA"
    proof (cases "\<exists>t \<in> set ?idx. d \<le> t")
      case True
      then have p: "?p < length s" "d \<le> ?idx ! ?p" using plt by blast+
      have "?TA ! ?p = 0" using p by simp
      moreover have "?TA ! ?p \<in> set ?TA" using p by (intro nth_mem) simp
      ultimately show ?thesis by simp
    next
      case False
      have l: "0 < length s" using ne by simp
      have "s ! 0 \<in> set s" using l by (intro nth_mem)
      then have "\<not> d \<le> fst (s ! 0)" using False by auto
      then have "?TA ! 0 = 0" using l by simp
      moreover have "?TA ! 0 \<in> set ?TA" using l by (intro nth_mem) simp
      ultimately show ?thesis by simp
    qed
  qed
  have c2: "is_const_col ?iv \<longleftrightarrow> \<not> ?c"
  proof
    assume "is_const_col ?iv"
    then obtain v where v: "v \<noteq> 0" and all: "\<forall>x \<in> set ?iv. x = v"
      unfolding is_const_col_iff by blast
    show "\<not> ?c"
    proof
      assume ?c
      then obtain t where t: "t \<in> set ?idx" "t < d" by blast
      then have "(0::int) \<in> set ?iv" by force
      then show False using all v by auto
    qed
  next
    assume nc: "\<not> ?c"
    have "\<forall>x \<in> set ?iv. x = 1" using nc by (auto simp: not_less)
    moreover have "?iv \<noteq> []" using ne by simp
    ultimately show "is_const_col ?iv" unfolding is_const_col_iff by (intro conjI exI[of _ 1]) simp_all
  qed
  have c: "adds_const ?tv ?iv ?TA = ?c"
    unfolding adds_const_def using c1 c2 c3 by simp
  have x0: "map (\<lambda>(t, i, a). design_row b t i a) (zip ?tv (zip ?iv ?TA))
           = map (\<lambda>i. design_row b (int i) (?iv ! i) (?TA ! i)) [0..<length s]" for b
    by (rule nth_equalityI) auto
  have x1: "map (\<lambda>i. design_row b (int i) (?iv ! i) (?TA ! i)) [0..<length s]
           = map (\<lambda>i. (if b then [1] else [])
                           @ [real_of_int (int i),
                              real_of_int (if d \<le> ?idx ! i then 1 else 0),
                              real_of_int (if d \<le> ?idx ! i then int i - int ?p else 0)])
                 [0..<length s]" for b
  proof (rule map_cong[OF refl])
    fix i assume "i \<in> set [0..<length s]"
    then have i: "i < length s" by simp
    have a: "?iv ! i = (if d \<le> ?idx ! i then 1 else 0)" using i by simp
    have b: "?TA ! i = (if d \<le> ?idx ! i then int i - int ?p else 0)" using i by simp
    show "design_row b (int i) (?iv ! i) (?TA ! i)
        = (if b then [1] else [])
            @ [real_of_int (int i),
               real_of_int (if d \<le> ?idx ! i then 1 else 0),
               real_of_int (if d \<le> ?idx ! i then int i - int ?p else 0)]"
      unfolding a b design_row_def by (rule refl)
  qed
  have x: "map (\<lambda>(t, i, a). design_row b t i a) (zip ?tv (zip ?iv ?TA))
           = map (\<lambda>i. (if b then [1] else [])
                           @ [real_of_int (int i),
                              real_of_int (if d \<le> ?idx ! i then 1 else 0),
                              real_of_int (if d \<le> ?idx ! i then int i - int ?p else 0)])
                 [0..<length s]" for b
    using x0[of b] x1[of b] by (rule trans)
  show ?thesis
    unfolding its_request_def Let_def am sum.case ta c x
    by (rule refl)
qed

lemma its_request_empty: "its_request pw [] d = Inl ValueError"
  by (simp add: its_request_def argmax_def)

text \<open>A row with the two intervention columns set to 0.\<close>

lemma counter_row:
  "set_col ((if c then [''const''] else []) @ [''time'', ''intervention'', ''time_after''])
           ''time_after'' 0
     (set_col ((if c then [''const''] else []) @ [''time'', ''intervention'', ''time_after''])
           ''intervention'' 0
        ((if c then [1] else []) @ [t, i, a]))
   = (if c then [1] else []) @ [t, 0, 0]"
  by (simp add: set_col_def)

lemma max_lags_trunc:
  "max_lags c = max 1 (if 0 \<le> 0.75 * c then \<lfloor>0.75 * c\<rfloor> else \<lceil>0.75 * c\<rceil>)"
  by (simp add: max_lags_def py_int_def)

lemma max_lags_exact: "c = root 3 (real n) \<Longrightarrow> max_lags c = exact_max_lags n"
  by (simp add: max_lags_def exact_max_lags_def py_int_def)

lemma dropna_all:
  "\<forall>(t, v) \<in> set series. v \<noteq> None \<Longrightarrow> map fst (dropna series) = map fst series"
  by (induction series) (auto simp: dropna_def)

text \<open>
  The whole function in terms of the request: it fails where building the request,
  the fit or the report fails, and otherwise returns the record built from the
  library's answers.
\<close>

lemma its_unfold:
  assumes "its_request pw (its_window pre post d (sort_index (dropna series))) d = Inr req"
  shows "interrupted_time_series ols_fit report pw series d pre post =
     (case ols_fit req of
        Inl e \<Rightarrow> Inl e
      | Inr ps \<Rightarrow>
          (case report req ps of
             Inl e \<Rightarrow> Inl e
           | Inr rep \<Rightarrow>
               Inr \<lparr> model_summary = summary2 rep,
                     params = zip (exog_names req) ps,
                     pvalues = zip (exog_names req) (model_pvalues rep),
                     r_squared = model_rsquared rep,
                     intervention_effect =
                       get_or (map_of (zip (exog_names req) ps) ''intervention'') 0,
                     trend_change =
                       get_or (map_of (zip (exog_names req) ps) ''time_after'') 0,
                     actual = its_window pre post d (sort_index (dropna series)),
                     fitted = zip (map fst (its_window pre post d (sort_index (dropna series))))
                                  (map (predict_row ps) (exog req)),
                     counterfactual =
                       zip (map fst (its_window pre post d (sort_index (dropna series))))
                           (map (predict_row ps)
                              (map (\<lambda>row. set_col (exog_names req) ''time_after'' 0
                                            (set_col (exog_names req) ''intervention'' 0 row))
                                   (exog req))) \<rparr>))"
  unfolding interrupted_time_series_def Let_def assms sum.case
  by (rule refl)

lemma its_empty:
  assumes "its_window pre post d (sort_index (dropna series)) = []"
  shows "interrupted_time_series ols_fit report pw series d pre post = Inl ValueError"
  unfolding interrupted_time_series_def Let_def assms its_request_empty sum.case
  by (rule refl)


subsection \<open>C4: the regressors and the lag truncation\<close>

text \<open>
  C4 as stated: for every input series the estimator builds the three regressors and
  refits the standard errors with lag truncation \<open>max(1, floor(0.75 * n^(1/3)))\<close>.
  On a series without observations \<open>argmax\<close> raises and nothing is built, whatever
  the regression library would return.  And the lag is computed in binary64, where
  \<open>64 ** (1/3)\<close> is \<open>3.9999999999999996 = 4 - 2^-51\<close>: the code's lag for 64
  observations is 2 (as the test of the lag formula in tests/test\_policy\_impact.py
  expects), the exact formula gives 3.
\<close>

theorem its_regressors_counterexample:
  "interrupted_time_series (\<lambda>req. Inr [0, 0, 0, 0])
       (\<lambda>req ps. Inr \<lparr> summary2 = [], model_pvalues = [], model_rsquared = NaN \<rparr>)
       (\<lambda>n. 0) [] 0 None None = Inl ValueError
   \<and> max_lags (4 - 1 / 2 ^ 51) = 2 \<and> exact_max_lags 64 = 3"
proof -
  have a: "interrupted_time_series (\<lambda>req. Inr [0, 0, 0, 0])
       (\<lambda>req ps. Inr \<lparr> summary2 = [], model_pvalues = [], model_rsquared = NaN \<rparr>)
       (\<lambda>n. 0) [] 0 None None = Inl ValueError"
    by (simp add: interrupted_time_series_def its_request_def dropna_def sort_index_def
                  its_window_def argmax_def Let_def)
  have "\<lfloor>0.75 * (4 - 1 / 2 ^ 51 :: real)\<rfloor> = 2"
    by (rule floor_unique) simp_all
  then have b: "max_lags (4 - 1 / 2 ^ 51) = 2" by (simp add: max_lags_def py_int_def)
  have "root 3 (4 ^ 3) = (4::real)" by (rule real_root_power_cancel) simp_all
  then have "root 3 (64::real) = 4" by simp
  then have c: "exact_max_lags 64 = 3" by (simp add: exact_max_lags_def)
  show ?thesis using a b c by simp
qed

text \<open>
  C4 as amended: let \<open>s\<close> be the analysed window of the input (missing values
  dropped, sorted by timestamp, cut to the requested pre and post periods), with
  \<open>n \<ge> 1\<close> observations, and \<open>p\<close> the position of its first observation at or
  after the intervention date.  Before fitting, the estimator builds the design rows
  \<open>[1,] time, intervention, time_after\<close> with \<open>time = i\<close>, \<open>intervention\<close> = 1
  at or after the intervention date and 0 before, \<open>time_after = i - p\<close> at or after
  the intervention date and 0 before (never negative); the column of ones is there
  unless every observation is at or after the intervention date.  It asks the
  regression library for the least-squares fit of the values of \<open>s\<close> on these rows
  with HAC covariance and \<open>maxlags = max(1, int(0.75 * c))\<close>, \<open>c\<close> the binary64
  value of \<open>n ** (1/3)\<close> and \<open>int\<close> truncating; this is
  \<open>max(1, floor(0.75 * n^(1/3)))\<close> when \<open>c\<close> is the exact cube root.  The estimator
  raises what the fit or the report of the fitted model raises, and otherwise returns
  the parameters that the fit of exactly this request returned.
\<close>

theorem its_regressors:
  assumes ne: "its_window pre post d (sort_index (dropna series)) \<noteq> []"
  shows "let s = its_window pre post d (sort_index (dropna series));
             n = length s;
             idx = map fst s;
             p = length (takeWhile (\<lambda>t. t < d) idx);
             c = (\<exists>t \<in> set idx. t < d);
             L = max 1 (if 0 \<le> 0.75 * pw n then \<lfloor>0.75 * pw n\<rfloor> else \<lceil>0.75 * pw n\<rceil>);
             req = \<lparr> endog = map snd s,
                     exog_names = (if c then [''const''] else [])
                                  @ [''time'', ''intervention'', ''time_after''],
                     exog = map (\<lambda>i. (if c then [1] else [])
                                   @ [real_of_int (int i),
                                      real_of_int (if d \<le> idx ! i then 1 else 0),
                                      real_of_int (if d \<le> idx ! i then int i - int p else 0)])
                                [0..<n],
                     cov_type = HAC L \<rparr>
         in its_request pw s d = Inr req
          \<and> (\<forall>i<n. d \<le> idx ! i \<longrightarrow> p \<le> i \<and> p < n \<and> d \<le> idx ! p)
          \<and> (\<forall>j<p. idx ! j < d)
          \<and> (pw n = root 3 (real n) \<longrightarrow> L = max 1 \<lfloor>0.75 * root 3 (real n)\<rfloor>)
          \<and> (\<forall>e. ols_fit req = Inl e
                \<longrightarrow> interrupted_time_series ols_fit report pw series d pre post = Inl e)
          \<and> (\<forall>ps e. ols_fit req = Inr ps \<and> report req ps = Inl e
                \<longrightarrow> interrupted_time_series ols_fit report pw series d pre post = Inl e)
          \<and> (\<forall>ps rep. ols_fit req = Inr ps \<and> report req ps = Inr rep
                \<longrightarrow> (\<exists>r. interrupted_time_series ols_fit report pw series d pre post = Inr r
                       \<and> params r = zip (exog_names req) ps
                       \<and> model_summary r = summary2 rep
                       \<and> actual r = s))"
proof -
  define s where "s = its_window pre post d (sort_index (dropna series))"
  define idx where "idx = map fst s"
  define p where "p = length (takeWhile (\<lambda>t. t < d) idx)"
  define L where "L = max 1 (if 0 \<le> 0.75 * pw (length s) then \<lfloor>0.75 * pw (length s)\<rfloor>
                            else \<lceil>0.75 * pw (length s)\<rceil>)"
  define req where "req = \<lparr> endog = map snd s,
                     exog_names = (if (\<exists>t \<in> set idx. t < d) then [''const''] else [])
                                  @ [''time'', ''intervention'', ''time_after''],
                     exog = map (\<lambda>i. (if (\<exists>t \<in> set idx. t < d) then [1] else [])
                                   @ [real_of_int (int i),
                                      real_of_int (if d \<le> idx ! i then 1 else 0),
                                      real_of_int (if d \<le> idx ! i then int i - int p else 0)])
                                [0..<length s],
                     cov_type = HAC L \<rparr>"
  have ne': "s \<noteq> []" using ne by (simp add: s_def)
  have rq: "its_request pw s d = Inr req"
    unfolding req_def L_def p_def idx_def max_lags_trunc[symmetric]
    using ne' by (rule its_request_eq)
  have rq': "its_request pw (its_window pre post d (sort_index (dropna series))) d = Inr req"
    using rq by (simp add: s_def)
  note run = its_unfold[OF rq', of ols_fit report]
  have post: "\<forall>i<length s. d \<le> idx ! i \<longrightarrow> p \<le> i \<and> p < length s \<and> d \<le> idx ! p"
  proof (intro allI impI)
    fix i assume i: "i < length s" and di: "d \<le> idx ! i"
    have "idx ! i \<in> set idx" using i by (intro nth_mem) (simp add: idx_def)
    then have ex: "\<exists>t \<in> set idx. d \<le> t" using di by blast
    have fp: "p < length idx \<and> d \<le> idx ! p" unfolding p_def using ex by (rule first_post)
    have nlt: "\<not> i < p"
    proof
      assume "i < p"
      then have "idx ! i < d" unfolding p_def by (rule before_first_post)
      then show False using di by simp
    qed
    have len: "length idx = length s" by (simp add: idx_def)
    have a: "p \<le> i" using nlt by (rule leI)
    have b: "p < length s" using fp unfolding len by (rule conjunct1)
    have c: "d \<le> idx ! p" using fp by (rule conjunct2)
    show "p \<le> i \<and> p < length s \<and> d \<le> idx ! p" using a b c by (intro conjI)
  qed
  have pre: "\<forall>j<p. idx ! j < d"
    unfolding p_def using before_first_post by blast
  have lag: "pw (length s) = root 3 (real (length s))
             \<longrightarrow> L = max 1 \<lfloor>0.75 * root 3 (real (length s))\<rfloor>"
    by (simp add: L_def)
  have e1: "\<forall>e. ols_fit req = Inl e
                \<longrightarrow> interrupted_time_series ols_fit report pw series d pre post = Inl e"
    by (simp add: run)
  have e2: "\<forall>ps e. ols_fit req = Inr ps \<and> report req ps = Inl e
                \<longrightarrow> interrupted_time_series ols_fit report pw series d pre post = Inl e"
    by (simp add: run)
  have ok: "\<forall>ps rep. ols_fit req = Inr ps \<and> report req ps = Inr rep
                \<longrightarrow> (\<exists>r. interrupted_time_series ols_fit report pw series d pre post = Inr r
                       \<and> params r = zip (exog_names req) ps
                       \<and> model_summary r = summary2 rep
                       \<and> actual r = s)"
    by (simp add: run s_def)
  show ?thesis
    unfolding Let_def s_def[symmetric] idx_def[symmetric] p_def[symmetric] L_def[symmetric]
              req_def[symmetric]
    using rq post pre lag e1 e2 ok by (intro conjI)
qed

theorem its_regressors_witness:
  "its_window None None 5 (sort_index (dropna
       [(1, Some 10), (2, Some 20), (3, Some 30), (4, Some 40),
        (5, Some 50), (6, Some 60), (7, Some 70), (8, Some 80)])) \<noteq> []
   \<and> its_request (\<lambda>n. 2) [(1, 10), (2, 20), (3, 30), (4, 40),
                            (5, 50), (6, 60), (7, 70), (8, 80)] 5
     = Inr \<lparr> endog = [10, 20, 30, 40, 50, 60, 70, 80],
             exog_names = [''const'', ''time'', ''intervention'', ''time_after''],
             exog = [[1, 0, 0, 0], [1, 1, 0, 0], [1, 2, 0, 0], [1, 3, 0, 0],
                     [1, 4, 1, 0], [1, 5, 1, 1], [1, 6, 1, 2], [1, 7, 1, 3]],
             cov_type = HAC 1 \<rparr>
   \<and> (\<exists>r. interrupted_time_series (\<lambda>req. Inr [1, 2, 3, 4])
              (\<lambda>req ps. Inr \<lparr> summary2 = ''OLS'', model_pvalues = [], model_rsquared = NaN \<rparr>)
              (\<lambda>n. 2)
              [(1, Some 10), (2, Some 20), (3, Some 30), (4, Some 40),
               (5, Some 50), (6, Some 60), (7, Some 70), (8, Some 80)] 5 None None = Inr r
          \<and> params r = [(''const'', 1), (''time'', 2), (''intervention'', 3), (''time_after'', 4)])"
proof -
  have s: "its_window None None 5 (sort_index (dropna
       [(1, Some 10), (2, Some 20), (3, Some 30), (4, Some 40),
        (5, Some 50), (6, Some 60), (7, Some 70), (8, Some 80)]))
       = [(1, 10), (2, 20), (3, 30), (4, 40), (5, 50), (6, 60), (7, 70), (8, 80)]"
    by (simp add: its_window_def sort_index_def dropna_def)
  then have h: "its_window None None 5 (sort_index (dropna
       [(1, Some 10), (2, Some 20), (3, Some 30), (4, Some 40),
        (5, Some 50), (6, Some 60), (7, Some 70), (8, Some 80)])) \<noteq> []"
    by simp
  have fl: "\<lfloor>3 / 2 :: real\<rfloor> = 1" by (rule floor_unique) simp_all
  have u: "[0..<8] = [0, 1, 2, 3, 4, 5, 6, 7]" by (simp add: upt_rec)
  note t = its_regressors[OF h, of "\<lambda>n. 2" "\<lambda>req. Inr [1, 2, 3, 4]"
      "\<lambda>req ps. Inr \<lparr> summary2 = ''OLS'', model_pvalues = [], model_rsquared = NaN \<rparr>",
      unfolded Let_def s]
  from t have rq: "its_request (\<lambda>n. 2) [(1, 10), (2, 20), (3, 30), (4, 40),
                            (5, 50), (6, 60), (7, 70), (8, 80)] 5
     = Inr \<lparr> endog = [10, 20, 30, 40, 50, 60, 70, 80],
             exog_names = [''const'', ''time'', ''intervention'', ''time_after''],
             exog = [[1, 0, 0, 0], [1, 1, 0, 0], [1, 2, 0, 0], [1, 3, 0, 0],
                     [1, 4, 1, 0], [1, 5, 1, 1], [1, 6, 1, 2], [1, 7, 1, 3]],
             cov_type = HAC 1 \<rparr>"
    by (simp add: fl u)
  from t have "\<exists>r. interrupted_time_series (\<lambda>req. Inr [1, 2, 3, 4])
              (\<lambda>req ps. Inr \<lparr> summary2 = ''OLS'', model_pvalues = [], model_rsquared = NaN \<rparr>)
              (\<lambda>n. 2)
              [(1, Some 10), (2, Some 20), (3, Some 30), (4, Some 40),
               (5, Some 50), (6, Some 60), (7, Some 70), (8, Some 80)] 5 None None = Inr r
          \<and> params r = [(''const'', 1), (''time'', 2), (''intervention'', 3), (''time_after'', 4)]
          \<and> model_summary r = ''OLS''
          \<and> actual r = [(1, 10), (2, 20), (3, 30), (4, 40), (5, 50), (6, 60), (7, 70), (8, 80)]"
    by (simp add: fl u)
  then obtain r where a: "interrupted_time_series (\<lambda>req. Inr [1, 2, 3, 4])
              (\<lambda>req ps. Inr \<lparr> summary2 = ''OLS'', model_pvalues = [], model_rsquared = NaN \<rparr>)
              (\<lambda>n. 2)
              [(1, Some 10), (2, Some 20), (3, Some 30), (4, Some 40),
               (5, Some 50), (6, Some 60), (7, Some 70), (8, Some 80)] 5 None None = Inr r"
    and b: "params r = [(''const'', 1), (''time'', 2), (''intervention'', 3), (''time_after'', 4)]"
    by (elim exE conjE)
  from a b have "\<exists>r. interrupted_time_series (\<lambda>req. Inr [1, 2, 3, 4])
              (\<lambda>req ps. Inr \<lparr> summary2 = ''OLS'', model_pvalues = [], model_rsquared = NaN \<rparr>)
              (\<lambda>n. 2)
              [(1, Some 10), (2, Some 20), (3, Some 30), (4, Some 40),
               (5, Some 50), (6, Some 60), (7, Some 70), (8, Some 80)] 5 None None = Inr r
          \<and> params r = [(''const'', 1), (''time'', 2), (''intervention'', 3), (''time_after'', 4)]"
    by (intro exI[of _ r] conjI)
  with h rq show ?thesis by (intro conjI)
qed

subsection \<open>C10: fitted values and counterfactual\<close>

text \<open>
  C10 as stated: for every input series the fitted and the counterfactual series are
  indexed by exactly the original series' timestamps.  With a window of one
  pre-intervention period on a series of four observations at timestamps 1 to 4 and
  the intervention at 3, both series are indexed by 2, 3, 4.  And on a series whose
  values are all missing the estimator raises, so that no counterfactual series is
  returned for it.
\<close>

theorem its_counterfactual_index_counterexample:
  "fitted_index (interrupted_time_series (\<lambda>req. Inr [0, 0, 0, 0])
          (\<lambda>req ps. Inr \<lparr> summary2 = [], model_pvalues = [], model_rsquared = NaN \<rparr>)
          (\<lambda>n. 1)
          [(1, Some 10), (2, Some 20), (3, Some 30), (4, Some 40)] 3 (Some 1) None)
     = Inr [2, 3, 4]
   \<and> counterfactual_index (interrupted_time_series (\<lambda>req. Inr [0, 0, 0, 0])
          (\<lambda>req ps. Inr \<lparr> summary2 = [], model_pvalues = [], model_rsquared = NaN \<rparr>)
          (\<lambda>n. 1)
          [(1, Some 10), (2, Some 20), (3, Some 30), (4, Some 40)] 3 (Some 1) None)
     = Inr [2, 3, 4]
   \<and> map fst [(1 :: int, Some (10 :: real)), (2, Some 20), (3, Some 30), (4, Some 40)]
     = [1, 2, 3, 4]
   \<and> counterfactual_index (interrupted_time_series (\<lambda>req. Inr [0, 0, 0, 0])
          (\<lambda>req ps. Inr \<lparr> summary2 = [], model_pvalues = [], model_rsquared = NaN \<rparr>)
          (\<lambda>n. 1)
          [(1, None), (2, None)] 3 None None) = Inl ValueError"
  by (simp add: interrupted_time_series_def its_request_def dropna_def sort_index_def
                its_window_def argmax_def Let_def fitted_index_def counterfactual_index_def
                searchsorted_left_def upt_rec)

text \<open>
  C10 as amended: whenever the estimator returns a result (its analysed window \<open>s\<close>
  is then not empty, and the library's fit and report did not raise), the fitted value
  at every timestamp of \<open>s\<close> is the linear prediction, with the parameters the fit
  returned, of that observation's design row, and the counterfactual value is the
  prediction of the same row with \<open>intervention\<close> and \<open>time_after\<close> set to 0; at
  every timestamp before the intervention date the two are equal.  Both series are
  indexed by exactly the timestamps of \<open>s\<close> (the series returned as \<open>actual\<close>);
  these are the original series' timestamps when the series is sorted, has no missing
  value and no window is requested.
\<close>

theorem its_counterfactual:
  assumes run: "interrupted_time_series ols_fit report pw series d pre post = Inr r"
  shows "let s = its_window pre post d (sort_index (dropna series));
             n = length s;
             idx = map fst s;
             p = length (takeWhile (\<lambda>t. t < d) idx);
             c = (\<exists>t \<in> set idx. t < d);
             row = (\<lambda>i. (if c then [1] else [])
                         @ [real_of_int (int i),
                            real_of_int (if d \<le> idx ! i then 1 else 0),
                            real_of_int (if d \<le> idx ! i then int i - int p else 0)]);
             row0 = (\<lambda>i. (if c then [1] else []) @ [real_of_int (int i), 0, 0])
         in s \<noteq> [] \<and> actual r = s
          \<and> map fst (fitted r) = idx \<and> map fst (counterfactual r) = idx
          \<and> (\<exists>req ps. its_request pw s d = Inr req \<and> ols_fit req = Inr ps
                \<and> params r = zip (exog_names req) ps)
          \<and> (\<forall>req ps. its_request pw s d = Inr req \<and> ols_fit req = Inr ps
                \<longrightarrow> (\<forall>i<n. snd (fitted r ! i) = sum_list (map2 (*) (row i) ps)
                         \<and> snd (counterfactual r ! i) = sum_list (map2 (*) (row0 i) ps)
                         \<and> (idx ! i < d \<longrightarrow> snd (counterfactual r ! i) = snd (fitted r ! i))))
          \<and> (pre = None \<and> post = None \<and> sorted (map fst series)
               \<and> (\<forall>(t, v) \<in> set series. v \<noteq> None)
              \<longrightarrow> map fst (fitted r) = map fst series
                \<and> map fst (counterfactual r) = map fst series)"
proof -
  define s where "s = its_window pre post d (sort_index (dropna series))"
  define idx where "idx = map fst s"
  define p where "p = length (takeWhile (\<lambda>t. t < d) idx)"
  define c where "c = (\<exists>t \<in> set idx. t < d)"
  define names where
    "names = (if c then [''const''] else []) @ [''time'', ''intervention'', ''time_after'']"
  define row where "row = (\<lambda>i. (if c then [1] else [])
                         @ [real_of_int (int i),
                            real_of_int (if d \<le> idx ! i then 1 else 0),
                            real_of_int (if d \<le> idx ! i then int i - int p else 0)])"
  define row0 where "row0 = (\<lambda>i. (if c then [1::real] else []) @ [real_of_int (int i), 0, 0])"
  define req where "req = \<lparr> endog = map snd s, exog_names = names,
                            exog = map row [0..<length s],
                            cov_type = HAC (max_lags (pw (length s))) \<rparr>"
  have ne: "s \<noteq> []"
  proof
    assume "s = []"
    then have "interrupted_time_series ols_fit report pw series d pre post = Inl ValueError"
      unfolding s_def by (rule its_empty)
    then show False using run by simp
  qed
  have rq: "its_request pw s d = Inr req"
    unfolding req_def names_def row_def c_def p_def idx_def
    using ne by (rule its_request_eq)
  have rq': "its_request pw (its_window pre post d (sort_index (dropna series))) d = Inr req"
    using rq by (simp add: s_def)
  note u = its_unfold[OF rq', of ols_fit report, folded s_def, unfolded run]
  obtain ps where fit: "ols_fit req = Inr ps"
    using u by (cases "ols_fit req") simp_all
  obtain rep where rp: "report req ps = Inr rep"
    using u unfolding fit sum.case by (cases "report req ps") simp_all
  have nm: "exog_names req = names" and ex: "exog req = map row [0..<length s]"
    by (simp_all add: req_def)
  have r: "r = \<lparr> model_summary = summary2 rep,
                  params = zip names ps,
                  pvalues = zip names (model_pvalues rep),
                  r_squared = model_rsquared rep,
                  intervention_effect = get_or (map_of (zip names ps) ''intervention'') 0,
                  trend_change = get_or (map_of (zip names ps) ''time_after'') 0,
                  actual = s,
                  fitted = zip (map fst s) (map (predict_row ps) (map row [0..<length s])),
                  counterfactual =
                    zip (map fst s)
                        (map (predict_row ps)
                           (map (\<lambda>row. set_col names ''time_after'' 0
                                         (set_col names ''intervention'' 0 row))
                                (map row [0..<length s]))) \<rparr>"
    using u unfolding fit rp sum.case nm ex by simp
  have cr: "set_col names ''time_after'' 0 (set_col names ''intervention'' 0 (row i)) = row0 i"
    for i
    unfolding names_def row_def row0_def by (rule counter_row)
  have ac: "actual r = s" by (simp add: r)
  have fi: "fitted r = zip idx (map (\<lambda>i. predict_row ps (row i)) [0..<length s])"
    by (simp add: r idx_def comp_def)
  have co: "counterfactual r = zip idx (map (\<lambda>i. predict_row ps (row0 i)) [0..<length s])"
    by (simp add: r idx_def comp_def cr)
  have pa: "params r = zip (exog_names req) ps" by (simp add: r nm)
  have len: "length idx = length s" by (simp add: idx_def)
  have f1: "map fst (fitted r) = idx" unfolding fi using len by simp
  have c1: "map fst (counterfactual r) = idx" unfolding co using len by simp
  have rows: "\<forall>i<length s. snd (fitted r ! i) = sum_list (map2 (*) (row i) ps)
                         \<and> snd (counterfactual r ! i) = sum_list (map2 (*) (row0 i) ps)
                         \<and> (idx ! i < d \<longrightarrow> snd (counterfactual r ! i) = snd (fitted r ! i))"
  proof (intro allI impI)
    fix i assume i: "i < length s"
    have a: "snd (fitted r ! i) = sum_list (map2 (*) (row i) ps)"
      unfolding fi using i len by (simp add: predict_row_def)
    have b: "snd (counterfactual r ! i) = sum_list (map2 (*) (row0 i) ps)"
      unfolding co using i len by (simp add: predict_row_def)
    have e: "idx ! i < d \<longrightarrow> row i = row0 i" by (simp add: row_def row0_def)
    show "snd (fitted r ! i) = sum_list (map2 (*) (row i) ps)
        \<and> snd (counterfactual r ! i) = sum_list (map2 (*) (row0 i) ps)
        \<and> (idx ! i < d \<longrightarrow> snd (counterfactual r ! i) = snd (fitted r ! i))"
      using a b e by simp
  qed
  have lib: "\<exists>req ps. its_request pw s d = Inr req \<and> ols_fit req = Inr ps
                \<and> params r = zip (exog_names req) ps"
    using rq fit pa by (intro exI[of _ req] exI[of _ ps] conjI)
  have all: "\<forall>req' ps'. its_request pw s d = Inr req' \<and> ols_fit req' = Inr ps'
                \<longrightarrow> (\<forall>i<length s. snd (fitted r ! i) = sum_list (map2 (*) (row i) ps')
                         \<and> snd (counterfactual r ! i) = sum_list (map2 (*) (row0 i) ps')
                         \<and> (idx ! i < d \<longrightarrow> snd (counterfactual r ! i) = snd (fitted r ! i)))"
  proof (rule allI, rule allI, rule impI, elim conjE)
    fix req' ps'
    assume a: "its_request pw s d = Inr req'" and b: "ols_fit req' = Inr ps'"
    have "req' = req" using a rq by simp
    then have e: "ps' = ps" using b fit by simp
    show "\<forall>i<length s. snd (fitted r ! i) = sum_list (map2 (*) (row i) ps')
                         \<and> snd (counterfactual r ! i) = sum_list (map2 (*) (row0 i) ps')
                         \<and> (idx ! i < d \<longrightarrow> snd (counterfactual r ! i) = snd (fitted r ! i))"
      unfolding e by (rule rows)
  qed
  note all' = all[unfolded row_def row0_def]
  have plain: "pre = None \<and> post = None \<and> sorted (map fst series)
             \<and> (\<forall>(t, v) \<in> set series. v \<noteq> None) \<longrightarrow> idx = map fst series"
  proof (intro impI, elim conjE)
    assume q: "pre = None" "post = None" and so: "sorted (map fst series)"
      and al: "\<forall>(t, v) \<in> set series. v \<noteq> None"
    have m: "map fst (dropna series) = map fst series" using al by (rule dropna_all)
    then have "sorted (map fst (dropna series))" using so by simp
    then have "sort_index (dropna series) = dropna series"
      unfolding sort_index_def by (rule sort_key_id_if_sorted)
    then show "idx = map fst series" using q m by (simp add: idx_def s_def its_window_def)
  qed
  have plain': "pre = None \<and> post = None \<and> sorted (map fst series)
             \<and> (\<forall>(t, v) \<in> set series. v \<noteq> None)
            \<longrightarrow> map fst (fitted r) = map fst series
              \<and> map fst (counterfactual r) = map fst series"
    using plain f1 c1 by simp
  show ?thesis
    unfolding Let_def s_def[symmetric] idx_def[symmetric] p_def[symmetric] c_def[symmetric]
    using ne ac f1 c1 lib all' plain' by (intro conjI)
qed

theorem its_counterfactual_witness:
  "\<exists>r. interrupted_time_series (\<lambda>req. Inr [1, 2, 3, 4])
          (\<lambda>req ps. Inr \<lparr> summary2 = ''OLS'', model_pvalues = [], model_rsquared = NaN \<rparr>)
          (\<lambda>n. 2)
          [(1, Some 10), (2, Some 20), (3, Some 30), (4, Some 40),
           (5, Some 50), (6, Some 60), (7, Some 70), (8, Some 80)] 5 None None = Inr r
      \<and> map fst (fitted r) = [1, 2, 3, 4, 5, 6, 7, 8]
      \<and> map fst (counterfactual r) = [1, 2, 3, 4, 5, 6, 7, 8]
      \<and> snd (fitted r ! 3) = 7 \<and> snd (counterfactual r ! 3) = 7
      \<and> snd (fitted r ! 5) = 18 \<and> snd (counterfactual r ! 5) = 11"
proof -
  have s: "its_window None None 5 (sort_index (dropna
       [(1, Some 10), (2, Some 20), (3, Some 30), (4, Some 40),
        (5, Some 50), (6, Some 60), (7, Some 70), (8, Some 80)]))
       = [(1, 10), (2, 20), (3, 30), (4, 40), (5, 50), (6, 60), (7, 70), (8, 80)]"
    by (simp add: its_window_def sort_index_def dropna_def)
  have rq: "its_request (\<lambda>n. 2) (its_window None None 5 (sort_index (dropna
       [(1, Some 10), (2, Some 20), (3, Some 30), (4, Some 40),
        (5, Some 50), (6, Some 60), (7, Some 70), (8, Some 80)]))) 5 = Inr
       \<lparr> endog = map snd [(1 :: int, 10 :: real), (2, 20), (3, 30), (4, 40),
                           (5, 50), (6, 60), (7, 70), (8, 80)],
         exog_names = (if (\<exists>t \<in> set (map fst [(1 :: int, 10 :: real), (2, 20), (3, 30),
                             (4, 40), (5, 50), (6, 60), (7, 70), (8, 80)]). t < 5)
                       then [''const''] else [])
                      @ [''time'', ''intervention'', ''time_after''],
         exog = map (\<lambda>i. (if (\<exists>t \<in> set (map fst [(1 :: int, 10 :: real), (2, 20), (3, 30),
                             (4, 40), (5, 50), (6, 60), (7, 70), (8, 80)]). t < 5)
                          then [1] else [])
                   @ [real_of_int (int i),
                      real_of_int (if 5 \<le> map fst [(1 :: int, 10 :: real), (2, 20), (3, 30),
                             (4, 40), (5, 50), (6, 60), (7, 70), (8, 80)] ! i then 1 else 0),
                      real_of_int (if 5 \<le> map fst [(1 :: int, 10 :: real), (2, 20), (3, 30),
                             (4, 40), (5, 50), (6, 60), (7, 70), (8, 80)] ! i
                         then int i - int (length (takeWhile (\<lambda>t. t < 5)
                                (map fst [(1 :: int, 10 :: real), (2, 20), (3, 30),
                             (4, 40), (5, 50), (6, 60), (7, 70), (8, 80)])))
                         else 0)])
                 [0..<length [(1 :: int, 10 :: real), (2, 20), (3, 30),
                             (4, 40), (5, 50), (6, 60), (7, 70), (8, 80)]],
         cov_type = HAC (max_lags (2 :: real)) \<rparr>"
    unfolding s by (rule its_request_eq) simp
  obtain r where run: "interrupted_time_series (\<lambda>req. Inr [1, 2, 3, 4])
          (\<lambda>req ps. Inr \<lparr> summary2 = ''OLS'', model_pvalues = [], model_rsquared = NaN \<rparr>)
          (\<lambda>n. 2)
          [(1, Some 10), (2, Some 20), (3, Some 30), (4, Some 40),
           (5, Some 50), (6, Some 60), (7, Some 70), (8, Some 80)] 5 None None = Inr r"
    unfolding its_unfold[OF rq] sum.case by blast
  note t = its_counterfactual[OF run, unfolded Let_def s]
  have f: "map fst (fitted r) = [1, 2, 3, 4, 5, 6, 7, 8]"
    using t[THEN conjunct2, THEN conjunct2, THEN conjunct1] by simp
  have c: "map fst (counterfactual r) = [1, 2, 3, 4, 5, 6, 7, 8]"
    using t[THEN conjunct2, THEN conjunct2, THEN conjunct2, THEN conjunct1] by simp
  note rows = t[THEN conjunct2, THEN conjunct2, THEN conjunct2, THEN conjunct2,
                THEN conjunct2, THEN conjunct1, rule_format, OF conjI, OF rq[unfolded s] refl]
  have tw: "takeWhile (\<lambda>t. t < 5) [1, 2, 3, 4, 5, 6, 7, 8 :: int] = [1, 2, 3, 4]" by simp
  have r3: "snd (fitted r ! 3) = 7 \<and> snd (counterfactual r ! 3) = 7"
    using rows[of 3] by (simp add: tw)
  have r5: "snd (fitted r ! 5) = 18 \<and> snd (counterfactual r ! 5) = 11"
    using rows[of 5] by (simp add: tw)
  show ?thesis using run f c r3 r5 by (intro exI[of _ r] conjI) simp_all
qed

section \<open>Properties of the cluster bootstrap\<close>

subsection \<open>The household dictionary\<close>

lemma map_of_setdefault_append:
  "map_of (setdefault_append m k i) k' =
     (if k' = k then Some ((case map_of m k of None \<Rightarrow> [] | Some r \<Rightarrow> r) @ [i])
      else map_of m k')"
  by (induction m k i rule: setdefault_append.induct) auto

lemma keys_setdefault_append:
  "map fst (setdefault_append m k i) =
     (if k \<in> set (map fst m) then map fst m else map fst m @ [k])"
  by (induction m k i rule: setdefault_append.induct) auto

lemma hh_to_rows_snoc:
  "hh_to_rows (hs @ [h]) = setdefault_append (hh_to_rows hs) h (length hs)"
  by (simp add: hh_to_rows_def enumerate_append_eq)

lemma hh_to_rows_keys: "map fst (hh_to_rows hs) = rev (remdups (rev hs))"
proof (induction hs rule: rev_induct)
  case Nil
  then show ?case by (simp add: hh_to_rows_def)
next
  case (snoc h hs)
  have "set (rev (remdups (rev hs))) = set hs" by simp
  then show ?case
    unfolding hh_to_rows_snoc keys_setdefault_append snoc.IH by simp
qed

lemma filter_upt_snoc:
  "filter (\<lambda>i. (hs @ [h]) ! i = k) [0..<length hs] = filter (\<lambda>i. hs ! i = k) [0..<length hs]"
  by (rule filter_cong) (auto simp: nth_append)

lemma hh_to_rows_lookup:
  "map_of (hh_to_rows hs) k =
     (if k \<in> set hs then Some (filter (\<lambda>i. hs ! i = k) [0..<length hs]) else None)"
proof (induction hs arbitrary: k rule: rev_induct)
  case Nil
  then show ?case by (simp add: hh_to_rows_def)
next
  case (snoc h hs)
  let ?n = "length hs"
  have fl: "filter (\<lambda>i. (hs @ [h]) ! i = k') [0..<length (hs @ [h])]
            = filter (\<lambda>i. hs ! i = k') [0..<?n] @ (if h = k' then [?n] else [])" for k'
    by (simp add: filter_upt_snoc)
  have none: "h \<notin> set hs \<Longrightarrow> filter (\<lambda>i. hs ! i = h) [0..<?n] = []"
    by (auto simp: filter_empty_conv)
  show ?case
  proof (cases "k = h")
    case True
    show ?thesis
      unfolding hh_to_rows_snoc map_of_setdefault_append snoc.IH fl
      using True none by simp
  next
    case False
    show ?thesis
      unfolding hh_to_rows_snoc map_of_setdefault_append snoc.IH fl
      using False by simp
  qed
qed

lemma map_nth_filter_upt:
  "map (\<lambda>i. xs ! i) (filter (\<lambda>i. P (xs ! i)) [0..<length xs]) = filter P xs"
proof (induction xs rule: rev_induct)
  case Nil
  then show ?case by simp
next
  case (snoc x xs)
  have f: "filter (\<lambda>i. P ((xs @ [x]) ! i)) [0..<length xs] = filter (\<lambda>i. P (xs ! i)) [0..<length xs]"
    by (rule filter_cong) (auto simp: nth_append)
  have m: "map (\<lambda>i. (xs @ [x]) ! i) (filter (\<lambda>i. P (xs ! i)) [0..<length xs])
           = map (\<lambda>i. xs ! i) (filter (\<lambda>i. P (xs ! i)) [0..<length xs])"
    by (rule map_cong) (auto simp: nth_append)
  show ?case using snoc by (simp add: f m)
qed

lemma rows_of_members:
  "map (\<lambda>i. snd (valid ! i)) (rows_of valid hh) = cluster_members valid hh"
proof -
  have "map (\<lambda>i. valid ! i) (filter (\<lambda>i. fst (valid ! i) = hh) [0..<length valid])
        = filter (\<lambda>r. fst r = hh) valid"
    by (rule map_nth_filter_upt[of valid "\<lambda>r. fst r = hh"])
  then have "map snd (map (\<lambda>i. valid ! i) (rows_of valid hh)) = cluster_members valid hh"
    by (simp add: rows_of_def cluster_members_def)
  then show ?thesis by (simp add: o_def)
qed

lemma lookup_rows_eq:
  "lookup_rows (hh_to_rows (map fst valid)) drawn =
     (if set drawn \<subseteq> set (map fst valid) then Inr (map (rows_of valid) drawn) else Inl KeyError)"
proof (induction drawn)
  case Nil
  then show ?case by simp
next
  case (Cons k ks)
  have r: "filter (\<lambda>i. map fst valid ! i = k) [0..<length (map fst valid)] = rows_of valid k"
    unfolding rows_of_def by (rule filter_cong) auto
  show ?case
    using Cons by (auto simp: hh_to_rows_lookup r simp del: set_map length_map)
qed

subsection \<open>One replicate\<close>

lemma cluster_keys_set: "set (cluster_keys valid) = set (map fst valid)"
  by (simp add: cluster_keys_def)

lemma n_hh_eq: "length (np_unique (map fst valid)) = length (cluster_keys valid)"
proof -
  have "length (remdups (rev (map fst valid))) = length (remdups (map fst valid))"
    by (simp add: length_remdups_card_conv)
  then show ?thesis by (simp add: np_unique_def cluster_keys_def)
qed

lemma sample_of_rows:
  "map (\<lambda>i. snd (valid ! i)) (concat (map (rows_of valid) drawn))
   = concat (map (cluster_members valid) drawn)"
  by (simp add: map_concat o_def rows_of_members)

lemma boot_loop_Suc:
  "boot_loop ri valid (Suc b) g =
     (let keys = cluster_keys valid;
          (drawn, g') = rng_choice ri g keys (length keys)
      in if \<not> set drawn \<subseteq> set keys then Inl KeyError
         else if drawn = [] then Inl ValueError
         else
           (let smp = concat (map (cluster_members valid) drawn) in
            case replicate_stats smp of
              Inl e \<Rightarrow> Inl e
            | Inr st \<Rightarrow>
                (case boot_loop ri valid b g' of
                   Inl e \<Rightarrow> Inl e
                 | Inr rest \<Rightarrow>
                     Inr (\<lparr> boot_hh = drawn, row_idx = concat (map (rows_of valid) drawn),
                             boot_sample = smp, boot_result = st \<rparr> # rest))))"
proof -
  have k1: "map fst (hh_to_rows (map fst valid)) = cluster_keys valid"
    by (simp add: hh_to_rows_keys cluster_keys_def)
  obtain drawn g' where ch: "rng_choice ri g (cluster_keys valid) (length (cluster_keys valid)) = (drawn, g')"
    by (cases "rng_choice ri g (cluster_keys valid) (length (cluster_keys valid))") 
  show ?thesis
    unfolding boot_loop.simps Let_def k1 n_hh_eq ch prod.case lookup_rows_eq
              cluster_keys_set[symmetric]
    by (simp add: np_concatenate_def sample_of_rows cong: sum.case_cong)
qed

lemma replicate_stats_nonempty:
  assumes "smp \<noteq> []"
  shows "\<exists>st. replicate_stats smp = Inr st"
proof -
  have "sort_key fst smp \<noteq> []" using assms by (metis length_sort list.size(3) length_0_conv)
  then have "cumsum (map snd (sort_key fst smp)) \<noteq> []" by (simp add: cumsum_Nil_iff)
  then show ?thesis by (simp add: replicate_stats_def Let_def)
qed

lemma rng_choice_ok:
  assumes "randint_ok ri" "keys \<noteq> []" "rng_choice ri g keys n = (drawn, g')"
  shows "length drawn = n \<and> set drawn \<subseteq> set keys"
proof -
  obtain idx where r: "ri g (length keys) n = (idx, g')" and d: "drawn = map (\<lambda>i. keys ! i) idx"
    using assms(3) by (auto simp: rng_choice_def Let_def split: prod.splits)
  have pos: "0 < length keys" using assms(2) by simp
  from assms(1) pos have "length (fst (ri g (length keys) n)) = n"
    and "\<forall>i \<in> set (fst (ri g (length keys) n)). i < length keys"
    unfolding randint_ok_def by blast+
  then have "length idx = n" "\<forall>i \<in> set idx. i < length keys" using r by simp_all
  then show ?thesis using d by auto
qed

lemma cluster_members_nonempty:
  assumes "k \<in> set (cluster_keys valid)"
  shows "cluster_members valid k \<noteq> []"
proof -
  from assms obtain r where "r \<in> set valid" "fst r = k" by (auto simp: cluster_keys_def)
  then have "r \<in> set (filter (\<lambda>r. fst r = k) valid)" by simp
  then show ?thesis unfolding cluster_members_def by (metis empty_iff list.set(1) map_is_Nil_conv)
qed

lemma count_list_distinct:
  "distinct xs \<Longrightarrow> count_list xs x = (if x \<in> set xs then 1 else 0)"
  by (induction xs) auto

lemma count_rows_of:
  assumes "i < length valid"
  shows "count_list (rows_of valid k) i = (if fst (valid ! i) = k then 1 else 0)"
proof -
  have "distinct (rows_of valid k)" by (simp add: rows_of_def)
  then show ?thesis using assms by (simp add: count_list_distinct) (simp add: rows_of_def)
qed

lemma count_row_idx:
  assumes "i < length valid"
  shows "count_list (concat (map (rows_of valid) ks)) i = count_list ks (fst (valid ! i))"
  using assms by (induction ks) (simp_all add: count_rows_of)

lemma length_cluster_keys: "length (cluster_keys valid) = card (set (map fst valid))"
  unfolding cluster_keys_def length_rev length_remdups_card_conv by simp

subsection \<open>The replicate loop\<close>

lemma boot_loop_props:
  assumes rok: "randint_ok ri" and ne: "valid \<noteq> []"
  shows "\<exists>reps. boot_loop ri valid b g = Inr reps \<and> length reps = b
           \<and> (\<forall>rep \<in> set reps.
                  length (boot_hh rep) = card (set (map fst valid))
                \<and> set (boot_hh rep) \<subseteq> set (map fst valid)
                \<and> row_idx rep = concat (map (rows_of valid) (boot_hh rep))
                \<and> boot_sample rep = concat (map (cluster_members valid) (boot_hh rep))
                \<and> (\<forall>i < length valid. count_list (row_idx rep) i
                                          = count_list (boot_hh rep) (fst (valid ! i)))
                \<and> replicate_stats (boot_sample rep) = Inr (boot_result rep))"
proof -
  define P where "P = (\<lambda>rep :: boot_replicate.
                  length (boot_hh rep) = card (set (map fst valid))
                \<and> set (boot_hh rep) \<subseteq> set (map fst valid)
                \<and> row_idx rep = concat (map (rows_of valid) (boot_hh rep))
                \<and> boot_sample rep = concat (map (cluster_members valid) (boot_hh rep))
                \<and> (\<forall>i < length valid. count_list (row_idx rep) i
                                          = count_list (boot_hh rep) (fst (valid ! i)))
                \<and> replicate_stats (boot_sample rep) = Inr (boot_result rep))"
  have "\<exists>reps. boot_loop ri valid b g = Inr reps \<and> length reps = b \<and> (\<forall>rep \<in> set reps. P rep)"
  proof (induction b arbitrary: g)
    case 0
    then show ?case by simp
  next
    case (Suc b)
    let ?keys = "cluster_keys valid"
    have kne: "?keys \<noteq> []"
      using ne cluster_keys_set[of valid] by (metis list.set(1) map_is_Nil_conv set_empty)
    obtain drawn g' where ch: "rng_choice ri g ?keys (length ?keys) = (drawn, g')"
      by (cases "rng_choice ri g ?keys (length ?keys)")
    from rng_choice_ok[OF rok kne ch] have len: "length drawn = length ?keys"
      and sub: "set drawn \<subseteq> set ?keys" by simp_all
    have dne: "drawn \<noteq> []" using len kne by auto
    let ?smp = "concat (map (cluster_members valid) drawn)"
    have "hd drawn \<in> set ?keys" using dne sub by (cases drawn) auto
    then have "cluster_members valid (hd drawn) \<noteq> []" by (rule cluster_members_nonempty)
    then have "?smp \<noteq> []" using dne by (cases drawn) auto
    then obtain st where st: "replicate_stats ?smp = Inr st"
      using replicate_stats_nonempty by blast
    obtain rest where rest: "boot_loop ri valid b g' = Inr rest" "length rest = b"
      and restok: "\<forall>rep \<in> set rest. P rep"
      using Suc.IH[of g'] by blast
    let ?rep = "\<lparr> boot_hh = drawn, row_idx = concat (map (rows_of valid) drawn),
                   boot_sample = ?smp, boot_result = st \<rparr>"
    have run: "boot_loop ri valid (Suc b) g = Inr (?rep # rest)"
      unfolding boot_loop_Suc Let_def ch prod.case using sub dne st rest(1) by simp
    have ok: "P ?rep"
      unfolding P_def
      using len sub st count_row_idx[of _ valid drawn]
      by (simp add: length_cluster_keys cluster_keys_set)
    have "\<forall>rep \<in> set (?rep # rest). P rep" using ok restok by simp
    then show ?case using run rest(2) by simp
  qed
  then show ?thesis unfolding P_def by blast
qed

lemma ci_of_nonempty:
  assumes "vals \<noteq> []"
  shows "ci_of vals =
     \<lparr> ci_mean = Fin (sum_list vals / real (length vals)),
       ci_std_error = Fin (sqrt ((\<Sum>x\<leftarrow>vals. \<bar>x - sum_list vals / real (length vals)\<bar>
                                          * \<bar>x - sum_list vals / real (length vals)\<bar>)
                                  / real (length vals))),
       ci_lower = np_percentile vals 2.5, ci_upper = np_percentile vals 97.5 \<rparr>"
proof -
  have l: "0 < length vals" using assms by simp
  have m: "np_mean (map Fin vals) = Fin (sum_list vals / real (length vals))"
    using assms by (simp add: np_mean_def fsum_Fin)
  show ?thesis
    unfolding ci_of_def m using np_std_Fin[OF l] by simp
qed

lemma boot_loop_empty:
  "\<exists>e. boot_loop ri [] (Suc b) g = Inl e"
proof -
  obtain drawn g' where ch: "rng_choice ri g (cluster_keys []) (length (cluster_keys []))
      = (drawn, g')"
    by (cases "rng_choice ri g (cluster_keys []) (length (cluster_keys []))")
  show ?thesis
    unfolding boot_loop_Suc Let_def ch prod.case by (simp add: cluster_keys_def)
qed

lemma boot_loop_cong:
  assumes ck: "cluster_keys v1 = cluster_keys v2"
      and cm: "\<forall>k. cluster_members v1 k = cluster_members v2 k"
  shows "map_sum id (map (\<lambda>rep. (boot_hh rep, boot_sample rep, boot_result rep)))
           (boot_loop ri v1 b g)
       = map_sum id (map (\<lambda>rep. (boot_hh rep, boot_sample rep, boot_result rep)))
           (boot_loop ri v2 b g)"
proof (induction b arbitrary: g)
  case 0
  then show ?case by simp
next
  case (Suc b)
  have cm': "cluster_members v1 = cluster_members v2" using cm by (intro ext) simp
  obtain drawn g' where ch: "rng_choice ri g (cluster_keys v2) (length (cluster_keys v2))
      = (drawn, g')"
    by (cases "rng_choice ri g (cluster_keys v2) (length (cluster_keys v2))")
  show ?case
    unfolding boot_loop_Suc Let_def ck cm' ch prod.case
    using Suc.IH[of g']
    by (cases "boot_loop ri v1 b g'"; cases "boot_loop ri v2 b g'")
       (auto split: sum.splits)
qed

lemma boot_loop_const:
  assumes ch: "rng_choice ri g (cluster_keys valid) (length (cluster_keys valid)) = (drawn, g)"
      and sub: "set drawn \<subseteq> set (cluster_keys valid)" and dne: "drawn \<noteq> []"
      and st: "replicate_stats (concat (map (cluster_members valid) drawn)) = Inr st"
  shows "boot_loop ri valid b g =
           Inr (replicate b \<lparr> boot_hh = drawn, row_idx = concat (map (rows_of valid) drawn),
                               boot_sample = concat (map (cluster_members valid) drawn),
                               boot_result = st \<rparr>)"
proof (induction b)
  case 0
  then show ?case by simp
next
  case (Suc b)
  show ?case
    unfolding boot_loop_Suc Let_def ch prod.case using sub dne st Suc by simp
qed

lemma np_mean_replicate:
  assumes "0 < n"
  shows "np_mean (map Fin (replicate n v)) = Fin v"
proof -
  have "fsum (map Fin (replicate n v)) = Fin (sum_list (replicate n v))" by (rule fsum_Fin)
  then show ?thesis
    unfolding np_mean_def using assms by (simp add: sum_list_replicate del: map_replicate)
qed

lemma ci_means_const:
  assumes "boot_loop ri (valid_rows df) n_boot g = Inr (replicate n_boot rep)"
  shows "ci_means (test_bootstrap_ci ri g df)
           = Inr (map (\<lambda>sel. Fin (sel (boot_result rep))) stats_selectors)"
    and "first_draw (test_bootstrap_ci ri g df) = Inr [boot_hh rep]"
proof -
  have n: "0 < n_boot" by (simp add: n_boot_def)
  have "ci_mean (ci_of (map (\<lambda>r. sel (boot_result r)) (replicate n_boot rep)))
        = Fin (sel (boot_result rep))" for sel :: "boot_stats \<Rightarrow> real"
    using np_mean_replicate[OF n, of "sel (boot_result rep)"] by (simp add: ci_of_def)
  then show "ci_means (test_bootstrap_ci ri g df)
           = Inr (map (\<lambda>sel. Fin (sel (boot_result rep))) stats_selectors)"
    by (simp add: ci_means_def test_bootstrap_ci_def bootstrap_ci_def assms o_def)
  have "take 1 (replicate n_boot rep) = [rep]" by (simp add: n_boot_def)
  then show "first_draw (test_bootstrap_ci ri g df) = Inr [boot_hh rep]"
    by (simp add: first_draw_def test_bootstrap_ci_def bootstrap_ci_def assms)
qed

lemma run_rows_in_order:
  "boot_loop (\<lambda>g n k. (replicate k 0, g))
     (valid_rows [\<lparr> PH_SEQ = 1, MARSUPWT = 1, pretax_income = Some 10 \<rparr>,
                  \<lparr> PH_SEQ = 2, MARSUPWT = 1, pretax_income = Some 20 \<rparr>]) b ()
   = Inr (replicate b \<lparr> boot_hh = [1, 1], row_idx = [0, 0], boot_sample = [(10, 1), (10, 1)],
            boot_result = \<lparr> bs_bottom_50_share = 50, bs_bottom_50_mean_income = 10,
                             bs_top_10_share = 50, bs_gini_approx = - 1 / 2 \<rparr> \<rparr>)"
proof -
  have v: "valid_rows [\<lparr> PH_SEQ = 1, MARSUPWT = 1, pretax_income = Some 10 \<rparr>,
                  \<lparr> PH_SEQ = 2, MARSUPWT = 1, pretax_income = Some 20 \<rparr>] = [(1, 10, 1), (2, 20, 1)]"
    by (simp add: valid_rows_def)
  have k: "cluster_keys [(1, 10, 1), (2, 20, 1 :: real)] = [1, 2]"
    by (simp add: cluster_keys_def)
  have ch: "rng_choice (\<lambda>g n k. (replicate k 0, g)) () [1, 2] 2 = ([1, 1], ())"
    by (simp add: rng_choice_def numeral_2_eq_2)
  have m: "concat (map (cluster_members [(1, 10, 1), (2, 20, 1)]) [1, 1]) = [(10, 1), (10, 1)]"
    by (simp add: cluster_members_def)
  have r: "concat (map (rows_of [(1, 10, 1), (2, 20, 1 :: real)]) [1, 1]) = [0, 0]"
    by (simp add: rows_of_def upt_rec)
  have st: "replicate_stats [(10, 1), (10, 1)] =
     Inr \<lparr> bs_bottom_50_share = 50, bs_bottom_50_mean_income = 10,
                             bs_top_10_share = 50, bs_gini_approx = - 1 / 2 \<rparr>"
    by (simp add: replicate_stats_def cumsum_def Let_def group_total_def group_weight_def lorenz_gini_def)
  have ch': "rng_choice (\<lambda>g n k. (replicate k 0, g)) () (cluster_keys [(1, 10, 1), (2, 20, 1 :: real)])
               (length (cluster_keys [(1, 10, 1), (2, 20, 1 :: real)])) = ([1, 1], ())"
    unfolding k by (simp add: rng_choice_def)
  have sub: "set [1, 1] \<subseteq> set (cluster_keys [(1, 10, 1), (2, 20, 1 :: real)])"
    unfolding k by simp
  have st': "replicate_stats (concat (map (cluster_members [(1, 10, 1), (2, 20, 1)]) [1, 1])) =
     Inr \<lparr> bs_bottom_50_share = 50, bs_bottom_50_mean_income = 10,
                             bs_top_10_share = 50, bs_gini_approx = - 1 / 2 \<rparr>"
    unfolding m by (rule st)
  have dne: "[1, 1 :: int] \<noteq> []" by simp
  from boot_loop_const[OF ch' sub dne st', of b] show ?thesis
    unfolding v r m .
qed

lemma run_rows_swapped:
  "boot_loop (\<lambda>g n k. (replicate k 0, g))
     (valid_rows [\<lparr> PH_SEQ = 2, MARSUPWT = 1, pretax_income = Some 20 \<rparr>,
                  \<lparr> PH_SEQ = 1, MARSUPWT = 1, pretax_income = Some 10 \<rparr>]) b ()
   = Inr (replicate b \<lparr> boot_hh = [2, 2], row_idx = [0, 0], boot_sample = [(20, 1), (20, 1)],
            boot_result = \<lparr> bs_bottom_50_share = 50, bs_bottom_50_mean_income = 20,
                             bs_top_10_share = 50, bs_gini_approx = - 1 / 2 \<rparr> \<rparr>)"
proof -
  have v: "valid_rows [\<lparr> PH_SEQ = 2, MARSUPWT = 1, pretax_income = Some 20 \<rparr>,
                  \<lparr> PH_SEQ = 1, MARSUPWT = 1, pretax_income = Some 10 \<rparr>] = [(2, 20, 1), (1, 10, 1)]"
    by (simp add: valid_rows_def)
  have k: "cluster_keys [(2, 20, 1), (1, 10, 1 :: real)] = [2, 1]"
    by (simp add: cluster_keys_def)
  have ch: "rng_choice (\<lambda>g n k. (replicate k 0, g)) () [2, 1] 2 = ([2, 2], ())"
    by (simp add: rng_choice_def numeral_2_eq_2)
  have m: "concat (map (cluster_members [(2, 20, 1), (1, 10, 1)]) [2, 2]) = [(20, 1), (20, 1)]"
    by (simp add: cluster_members_def)
  have r: "concat (map (rows_of [(2, 20, 1), (1, 10, 1 :: real)]) [2, 2]) = [0, 0]"
    by (simp add: rows_of_def upt_rec)
  have st: "replicate_stats [(20, 1), (20, 1)] =
     Inr \<lparr> bs_bottom_50_share = 50, bs_bottom_50_mean_income = 20,
                             bs_top_10_share = 50, bs_gini_approx = - 1 / 2 \<rparr>"
    by (simp add: replicate_stats_def cumsum_def Let_def group_total_def group_weight_def lorenz_gini_def)
  have ch': "rng_choice (\<lambda>g n k. (replicate k 0, g)) () (cluster_keys [(2, 20, 1), (1, 10, 1 :: real)])
               (length (cluster_keys [(2, 20, 1), (1, 10, 1 :: real)])) = ([2, 2], ())"
    unfolding k by (simp add: rng_choice_def)
  have sub: "set [2, 2] \<subseteq> set (cluster_keys [(2, 20, 1), (1, 10, 1 :: real)])"
    unfolding k by simp
  have st': "replicate_stats (concat (map (cluster_members [(2, 20, 1), (1, 10, 1)]) [2, 2])) =
     Inr \<lparr> bs_bottom_50_share = 50, bs_bottom_50_mean_income = 20,
                             bs_top_10_share = 50, bs_gini_approx = - 1 / 2 \<rparr>"
    unfolding m by (rule st)
  have dne: "[2, 2 :: int] \<noteq> []" by simp
  from boot_loop_const[OF ch' sub dne st', of b] show ?thesis
    unfolding v r m .
qed

text \<open>
  The two percentiles of 500 values: the positions are \<open>0.025 * 499 = 12.475\<close> and
  \<open>0.975 * 499 = 486.525\<close> in the ascending sorted values.
\<close>

lemma np_percentile_500:
  assumes len: "length vals = 500"
  shows "np_percentile vals 2.5
           = Fin (sort vals ! 12 + 0.475 * (sort vals ! 13 - sort vals ! 12))"
    and "np_percentile vals 97.5
           = Fin (sort vals ! 486 + 0.525 * (sort vals ! 487 - sort vals ! 486))"
proof -
  have ne: "vals \<noteq> []" using len by auto
  have ls: "length (sort vals) - 1 = 499" using len by simp
  have h1: "2.5 / 100 * real (499 :: nat) = (12.475 :: real)" by simp
  have h2: "97.5 / 100 * real (499 :: nat) = (486.525 :: real)" by simp
  have f1: "\<lfloor>12.475 :: real\<rfloor> = 12" by (rule floor_unique) simp_all
  have f2: "\<lfloor>486.525 :: real\<rfloor> = 486" by (rule floor_unique) simp_all
  show "np_percentile vals 2.5
           = Fin (sort vals ! 12 + 0.475 * (sort vals ! 13 - sort vals ! 12))"
    unfolding np_percentile_def Let_def ls h1 f1 using ne by simp
  show "np_percentile vals 97.5
           = Fin (sort vals ! 486 + 0.525 * (sort vals ! 487 - sort vals ! 486))"
    unfolding np_percentile_def Let_def ls h2 f2 using ne by simp
qed

lemma cluster_bootstrap_nonempty:
  assumes rok: "randint_ok ri" and ne: "valid_rows df \<noteq> []"
  shows "\<exists>reps ci_tab. test_bootstrap_ci ri g df = Inr (reps, ci_tab)
      \<and> length reps = n_boot
      \<and> (\<forall>rep \<in> set reps.
             length (boot_hh rep) = card (set (map fst (valid_rows df)))
           \<and> set (boot_hh rep) \<subseteq> set (map fst (valid_rows df))
           \<and> row_idx rep = concat (map (rows_of (valid_rows df)) (boot_hh rep))
           \<and> boot_sample rep = concat (map (cluster_members (valid_rows df)) (boot_hh rep))
           \<and> (\<forall>i < length (valid_rows df).
                 count_list (row_idx rep) i
                 = count_list (boot_hh rep) (fst (valid_rows df ! i)))
           \<and> replicate_stats (boot_sample rep) = Inr (boot_result rep))
      \<and> ci_tab = map (\<lambda>sel.
           \<lparr> ci_mean = Fin (sum_list (map (\<lambda>rep. sel (boot_result rep)) reps) / real n_boot),
             ci_std_error = Fin (sqrt ((\<Sum>x\<leftarrow>map (\<lambda>rep. sel (boot_result rep)) reps.
                 \<bar>x - sum_list (map (\<lambda>rep. sel (boot_result rep)) reps) / real n_boot\<bar>
               * \<bar>x - sum_list (map (\<lambda>rep. sel (boot_result rep)) reps) / real n_boot\<bar>)
               / real n_boot)),
             ci_lower = Fin (sort (map (\<lambda>rep. sel (boot_result rep)) reps) ! 12
                             + 0.475 * (sort (map (\<lambda>rep. sel (boot_result rep)) reps) ! 13
                                        - sort (map (\<lambda>rep. sel (boot_result rep)) reps) ! 12)),
             ci_upper = Fin (sort (map (\<lambda>rep. sel (boot_result rep)) reps) ! 486
                             + 0.525 * (sort (map (\<lambda>rep. sel (boot_result rep)) reps) ! 487
                                        - sort (map (\<lambda>rep. sel (boot_result rep)) reps) ! 486)) \<rparr>)
           stats_selectors"
proof -
  from boot_loop_props[OF rok ne, of n_boot g]
  obtain reps where run: "boot_loop ri (valid_rows df) n_boot g = Inr reps"
    and len: "length reps = n_boot"
    and ok: "\<forall>rep \<in> set reps.
             length (boot_hh rep) = card (set (map fst (valid_rows df)))
           \<and> set (boot_hh rep) \<subseteq> set (map fst (valid_rows df))
           \<and> row_idx rep = concat (map (rows_of (valid_rows df)) (boot_hh rep))
           \<and> boot_sample rep = concat (map (cluster_members (valid_rows df)) (boot_hh rep))
           \<and> (\<forall>i < length (valid_rows df).
                 count_list (row_idx rep) i
                 = count_list (boot_hh rep) (fst (valid_rows df ! i)))
           \<and> replicate_stats (boot_sample rep) = Inr (boot_result rep)"
    by blast
  have rne: "reps \<noteq> []" using len by (auto simp: n_boot_def)
  have l500: "length (map (\<lambda>rep. sel (boot_result rep)) reps) = 500" for sel
    using len by (simp add: n_boot_def)
  have ci0: "ci_of (map (\<lambda>rep. sel (boot_result rep)) reps) =
           \<lparr> ci_mean = Fin (sum_list (map (\<lambda>rep. sel (boot_result rep)) reps) / real n_boot),
             ci_std_error = Fin (sqrt ((\<Sum>x\<leftarrow>map (\<lambda>rep. sel (boot_result rep)) reps.
                 \<bar>x - sum_list (map (\<lambda>rep. sel (boot_result rep)) reps) / real n_boot\<bar>
               * \<bar>x - sum_list (map (\<lambda>rep. sel (boot_result rep)) reps) / real n_boot\<bar>)
               / real n_boot)),
             ci_lower = np_percentile (map (\<lambda>rep. sel (boot_result rep)) reps) 2.5,
             ci_upper = np_percentile (map (\<lambda>rep. sel (boot_result rep)) reps) 97.5 \<rparr>" for sel
    using ci_of_nonempty[of "map (\<lambda>rep. sel (boot_result rep)) reps"] rne len by simp
  note ci = ci0[unfolded np_percentile_500[OF l500]]
  have res: "test_bootstrap_ci ri g df =
      Inr (reps, map (\<lambda>sel. ci_of (map (\<lambda>rep. sel (boot_result rep)) reps)) stats_selectors)"
    by (simp add: test_bootstrap_ci_def bootstrap_ci_def run)
  show ?thesis
    unfolding res ci using len ok by blast
qed


subsection \<open>C5: what a replicate draws and what is reported\<close>

text \<open>
  C5: given the generator's contract, on a table without valid rows the run fails
  before any replicate; on every other table it completes all 500 replicates, and in
  every replicate the number of drawn keys is the number of distinct cluster keys,
  every drawn key is one of them, the gathered rows are for each drawn key in turn
  all rows of that key (so the sample is the concatenation of the complete clusters
  drawn, and a row occurs as often as its key was drawn), the statistics are those of
  that sample; and the reported table holds, per statistic, the mean of the 500
  replicate values, their standard deviation (divisor 500) and their 2.5th and 97.5th
  percentiles: with \<open>a\<close> the replicate values sorted ascending (positions from 0),
  the lower bound is \<open>a[12] + 0.475 * (a[13] - a[12])\<close> and the upper bound is
  \<open>a[486] + 0.525 * (a[487] - a[486])\<close>.
\<close>

theorem cluster_bootstrap_replicates:
  assumes rok: "randint_ok ri"
  shows "(valid_rows df = [] \<longrightarrow> (\<exists>e. test_bootstrap_ci ri g df = Inl e))
       \<and> (valid_rows df \<noteq> [] \<longrightarrow>
            (\<exists>reps ci_tab. test_bootstrap_ci ri g df = Inr (reps, ci_tab)
      \<and> length reps = n_boot
      \<and> (\<forall>rep \<in> set reps.
             length (boot_hh rep) = card (set (map fst (valid_rows df)))
           \<and> set (boot_hh rep) \<subseteq> set (map fst (valid_rows df))
           \<and> row_idx rep = concat (map (rows_of (valid_rows df)) (boot_hh rep))
           \<and> boot_sample rep = concat (map (cluster_members (valid_rows df)) (boot_hh rep))
           \<and> (\<forall>i < length (valid_rows df).
                 count_list (row_idx rep) i
                 = count_list (boot_hh rep) (fst (valid_rows df ! i)))
           \<and> replicate_stats (boot_sample rep) = Inr (boot_result rep))
      \<and> ci_tab = map (\<lambda>sel.
           \<lparr> ci_mean = Fin (sum_list (map (\<lambda>rep. sel (boot_result rep)) reps) / real n_boot),
             ci_std_error = Fin (sqrt ((\<Sum>x\<leftarrow>map (\<lambda>rep. sel (boot_result rep)) reps.
                 \<bar>x - sum_list (map (\<lambda>rep. sel (boot_result rep)) reps) / real n_boot\<bar>
               * \<bar>x - sum_list (map (\<lambda>rep. sel (boot_result rep)) reps) / real n_boot\<bar>)
               / real n_boot)),
             ci_lower = Fin (sort (map (\<lambda>rep. sel (boot_result rep)) reps) ! 12
                             + 0.475 * (sort (map (\<lambda>rep. sel (boot_result rep)) reps) ! 13
                                        - sort (map (\<lambda>rep. sel (boot_result rep)) reps) ! 12)),
             ci_upper = Fin (sort (map (\<lambda>rep. sel (boot_result rep)) reps) ! 486
                             + 0.525 * (sort (map (\<lambda>rep. sel (boot_result rep)) reps) ! 487
                                        - sort (map (\<lambda>rep. sel (boot_result rep)) reps) ! 486)) \<rparr>)
           stats_selectors))"
proof (intro conjI impI)
  assume "valid_rows df = []"
  moreover have "\<exists>e. boot_loop ri [] n_boot g = Inl e"
    unfolding n_boot_def using boot_loop_empty[of ri 499 g] by simp
  ultimately show "\<exists>e. test_bootstrap_ci ri g df = Inl e"
    by (auto simp: test_bootstrap_ci_def bootstrap_ci_def)
next
  assume ne: "valid_rows df \<noteq> []"
  show "\<exists>reps ci_tab. test_bootstrap_ci ri g df = Inr (reps, ci_tab)
      \<and> length reps = n_boot
      \<and> (\<forall>rep \<in> set reps.
             length (boot_hh rep) = card (set (map fst (valid_rows df)))
           \<and> set (boot_hh rep) \<subseteq> set (map fst (valid_rows df))
           \<and> row_idx rep = concat (map (rows_of (valid_rows df)) (boot_hh rep))
           \<and> boot_sample rep = concat (map (cluster_members (valid_rows df)) (boot_hh rep))
           \<and> (\<forall>i < length (valid_rows df).
                 count_list (row_idx rep) i
                 = count_list (boot_hh rep) (fst (valid_rows df ! i)))
           \<and> replicate_stats (boot_sample rep) = Inr (boot_result rep))
      \<and> ci_tab = map (\<lambda>sel.
           \<lparr> ci_mean = Fin (sum_list (map (\<lambda>rep. sel (boot_result rep)) reps) / real n_boot),
             ci_std_error = Fin (sqrt ((\<Sum>x\<leftarrow>map (\<lambda>rep. sel (boot_result rep)) reps.
                 \<bar>x - sum_list (map (\<lambda>rep. sel (boot_result rep)) reps) / real n_boot\<bar>
               * \<bar>x - sum_list (map (\<lambda>rep. sel (boot_result rep)) reps) / real n_boot\<bar>)
               / real n_boot)),
             ci_lower = Fin (sort (map (\<lambda>rep. sel (boot_result rep)) reps) ! 12
                             + 0.475 * (sort (map (\<lambda>rep. sel (boot_result rep)) reps) ! 13
                                        - sort (map (\<lambda>rep. sel (boot_result rep)) reps) ! 12)),
             ci_upper = Fin (sort (map (\<lambda>rep. sel (boot_result rep)) reps) ! 486
                             + 0.525 * (sort (map (\<lambda>rep. sel (boot_result rep)) reps) ! 487
                                        - sort (map (\<lambda>rep. sel (boot_result rep)) reps) ! 486)) \<rparr>)
           stats_selectors"
    using rok ne by (rule cluster_bootstrap_nonempty)
qed

theorem cluster_bootstrap_replicates_witness:
  "randint_ok (\<lambda>g n k. (replicate k 0, g :: unit))
   \<and> valid_rows [\<lparr> PH_SEQ = 1, MARSUPWT = 1, pretax_income = Some 10 \<rparr>,
                 \<lparr> PH_SEQ = 2, MARSUPWT = 1, pretax_income = Some 20 \<rparr>] \<noteq> []
   \<and> (\<exists>reps ci_tab.
         test_bootstrap_ci (\<lambda>g n k. (replicate k 0, g)) ()
           [\<lparr> PH_SEQ = 1, MARSUPWT = 1, pretax_income = Some 10 \<rparr>,
            \<lparr> PH_SEQ = 2, MARSUPWT = 1, pretax_income = Some 20 \<rparr>] = Inr (reps, ci_tab)
         \<and> length reps = n_boot)"
proof -
  have h1: "randint_ok (\<lambda>g n k. (replicate k 0, g :: unit))"
    by (simp add: randint_ok_def)
  have h2: "valid_rows [\<lparr> PH_SEQ = 1, MARSUPWT = 1, pretax_income = Some 10 \<rparr>,
                 \<lparr> PH_SEQ = 2, MARSUPWT = 1, pretax_income = Some 20 \<rparr>] \<noteq> []"
    by (simp add: valid_rows_def)
  from cluster_bootstrap_replicates[OF h1,
         of "[\<lparr> PH_SEQ = 1, MARSUPWT = 1, pretax_income = Some 10 \<rparr>,
              \<lparr> PH_SEQ = 2, MARSUPWT = 1, pretax_income = Some 20 \<rparr>]" "()"] h2
  have "\<exists>reps ci_tab.
         test_bootstrap_ci (\<lambda>g n k. (replicate k 0, g)) ()
           [\<lparr> PH_SEQ = 1, MARSUPWT = 1, pretax_income = Some 10 \<rparr>,
            \<lparr> PH_SEQ = 2, MARSUPWT = 1, pretax_income = Some 20 \<rparr>] = Inr (reps, ci_tab)
         \<and> length reps = n_boot"
    by blast
  then show ?thesis using h1 h2 by blast
qed

subsection \<open>Two row orders of the same clusters\<close>

text \<open>
  Two households of one person each, supplied in the two possible row orders: whatever
  indices a generator that meets the contract returns, the keys drawn in the first
  replicate of the two runs differ.
\<close>

lemma boot_loop_first:
  assumes "boot_loop ri valid (Suc b) g = Inr reps"
  shows "map boot_hh (take 1 reps)
         = [fst (rng_choice ri g (cluster_keys valid) (length (cluster_keys valid)))]"
  using assms unfolding boot_loop_Suc Let_def
  by (auto split: prod.splits if_splits sum.splits)

lemma swapped_rows_draws_differ:
  assumes rok: "randint_ok ri"
  shows "first_draw (test_bootstrap_ci ri g
           [\<lparr> PH_SEQ = 1, MARSUPWT = 1, pretax_income = Some 10 \<rparr>,
            \<lparr> PH_SEQ = 2, MARSUPWT = 1, pretax_income = Some 20 \<rparr>])
       \<noteq> first_draw (test_bootstrap_ci ri g
           [\<lparr> PH_SEQ = 2, MARSUPWT = 1, pretax_income = Some 20 \<rparr>,
            \<lparr> PH_SEQ = 1, MARSUPWT = 1, pretax_income = Some 10 \<rparr>])"
proof -
  let ?vA = "[(1, 10, 1), (2, 20, 1)] :: (int \<times> real \<times> real) list"
  let ?vB = "[(2, 20, 1), (1, 10, 1)] :: (int \<times> real \<times> real) list"
  have vA: "valid_rows [\<lparr> PH_SEQ = 1, MARSUPWT = 1, pretax_income = Some 10 \<rparr>,
            \<lparr> PH_SEQ = 2, MARSUPWT = 1, pretax_income = Some 20 \<rparr>] = ?vA"
    by (simp add: valid_rows_def)
  have vB: "valid_rows [\<lparr> PH_SEQ = 2, MARSUPWT = 1, pretax_income = Some 20 \<rparr>,
            \<lparr> PH_SEQ = 1, MARSUPWT = 1, pretax_income = Some 10 \<rparr>] = ?vB"
    by (simp add: valid_rows_def)
  have kA: "cluster_keys ?vA = [1, 2]" and kB: "cluster_keys ?vB = [2, 1]"
    by (simp_all add: cluster_keys_def)
  obtain repsA where rA: "boot_loop ri ?vA n_boot g = Inr repsA"
    using boot_loop_props[OF rok, of ?vA n_boot g] by auto
  obtain repsB where rB: "boot_loop ri ?vB n_boot g = Inr repsB"
    using boot_loop_props[OF rok, of ?vB n_boot g] by auto
  have rA': "boot_loop ri ?vA (Suc 499) g = Inr repsA" using rA by (simp add: n_boot_def)
  have rB': "boot_loop ri ?vB (Suc 499) g = Inr repsB" using rB by (simp add: n_boot_def)
  obtain idx g' where ri: "ri g 2 2 = (idx, g')" by (cases "ri g 2 2")
  have "length (fst (ri g 2 2)) = 2" and "\<forall>i \<in> set (fst (ri g 2 2)). i < 2"
    using rok unfolding randint_ok_def by (metis zero_less_numeral)+
  then have len: "length idx = 2" and rng: "\<forall>i \<in> set idx. i < 2" using ri by simp_all
  then obtain i rest where idx: "idx = i # rest" and i: "i < 2" by (cases idx) auto
  have ri': "ri g (Suc (Suc 0)) (Suc (Suc 0)) = (idx, g')" using ri by (simp add: numeral_2_eq_2)
  have dA: "fst (rng_choice ri g [1, 2] (length [1, 2 :: int])) = map (\<lambda>i. [1, 2] ! i) idx"
    by (simp add: rng_choice_def ri')
  have dB: "fst (rng_choice ri g [2, 1] (length [2, 1 :: int])) = map (\<lambda>i. [2, 1] ! i) idx"
    by (simp add: rng_choice_def ri')
  have ne: "map (\<lambda>i. [1, 2 :: int] ! i) idx \<noteq> map (\<lambda>i. [2, 1] ! i) idx"
    using i unfolding idx by (cases i) auto
  have tA: "map boot_hh (take 1 repsA) = [map (\<lambda>i. [1, 2] ! i) idx]"
    using boot_loop_first[OF rA'] unfolding kA dA .
  have tB: "map boot_hh (take 1 repsB) = [map (\<lambda>i. [2, 1] ! i) idx]"
    using boot_loop_first[OF rB'] unfolding kB dB .
  have fA: "first_draw (test_bootstrap_ci ri g
           [\<lparr> PH_SEQ = 1, MARSUPWT = 1, pretax_income = Some 10 \<rparr>,
            \<lparr> PH_SEQ = 2, MARSUPWT = 1, pretax_income = Some 20 \<rparr>])
        = Inr (map boot_hh (take 1 repsA))"
    unfolding first_draw_def test_bootstrap_ci_def bootstrap_ci_def vA rA by simp
  have fB: "first_draw (test_bootstrap_ci ri g
           [\<lparr> PH_SEQ = 2, MARSUPWT = 1, pretax_income = Some 20 \<rparr>,
            \<lparr> PH_SEQ = 1, MARSUPWT = 1, pretax_income = Some 10 \<rparr>])
        = Inr (map boot_hh (take 1 repsB))"
    unfolding first_draw_def test_bootstrap_ci_def bootstrap_ci_def vB rB by simp
  show ?thesis unfolding fA fB tA tB using ne by simp
qed

subsection \<open>C6: what the result of a run depends on\<close>

text \<open>
  C6 as stated: with the same seed, two tables with the same set of distinct cluster
  keys and the same member observations give identical replicate draws and identical
  intervals.  Two households of one person each, supplied in the two possible row
  orders, with the same generator from the same state: the population the generator
  indexes is the list of keys in order of first appearance, so the same indices select
  household 1 in one run and household 2 in the other, and the reported mean of the
  bottom-50 mean income is 10 in one run and 20 in the other.
\<close>

theorem bootstrap_row_order_counterexample:
  "set (cluster_keys (valid_rows
          [\<lparr> PH_SEQ = 1, MARSUPWT = 1, pretax_income = Some 10 \<rparr>,
           \<lparr> PH_SEQ = 2, MARSUPWT = 1, pretax_income = Some 20 \<rparr>]))
     = set (cluster_keys (valid_rows
          [\<lparr> PH_SEQ = 2, MARSUPWT = 1, pretax_income = Some 20 \<rparr>,
           \<lparr> PH_SEQ = 1, MARSUPWT = 1, pretax_income = Some 10 \<rparr>]))
   \<and> cluster_members (valid_rows
          [\<lparr> PH_SEQ = 1, MARSUPWT = 1, pretax_income = Some 10 \<rparr>,
           \<lparr> PH_SEQ = 2, MARSUPWT = 1, pretax_income = Some 20 \<rparr>]) 1
     = cluster_members (valid_rows
          [\<lparr> PH_SEQ = 2, MARSUPWT = 1, pretax_income = Some 20 \<rparr>,
           \<lparr> PH_SEQ = 1, MARSUPWT = 1, pretax_income = Some 10 \<rparr>]) 1
   \<and> cluster_members (valid_rows
          [\<lparr> PH_SEQ = 1, MARSUPWT = 1, pretax_income = Some 10 \<rparr>,
           \<lparr> PH_SEQ = 2, MARSUPWT = 1, pretax_income = Some 20 \<rparr>]) 2
     = cluster_members (valid_rows
          [\<lparr> PH_SEQ = 2, MARSUPWT = 1, pretax_income = Some 20 \<rparr>,
           \<lparr> PH_SEQ = 1, MARSUPWT = 1, pretax_income = Some 10 \<rparr>]) 2
   \<and> first_draw (test_bootstrap_ci (\<lambda>g n k. (replicate k 0, g)) ()
          [\<lparr> PH_SEQ = 1, MARSUPWT = 1, pretax_income = Some 10 \<rparr>,
           \<lparr> PH_SEQ = 2, MARSUPWT = 1, pretax_income = Some 20 \<rparr>]) = Inr [[1, 1]]
   \<and> first_draw (test_bootstrap_ci (\<lambda>g n k. (replicate k 0, g)) ()
          [\<lparr> PH_SEQ = 2, MARSUPWT = 1, pretax_income = Some 20 \<rparr>,
           \<lparr> PH_SEQ = 1, MARSUPWT = 1, pretax_income = Some 10 \<rparr>]) = Inr [[2, 2]]
   \<and> ci_means (test_bootstrap_ci (\<lambda>g n k. (replicate k 0, g)) ()
          [\<lparr> PH_SEQ = 1, MARSUPWT = 1, pretax_income = Some 10 \<rparr>,
           \<lparr> PH_SEQ = 2, MARSUPWT = 1, pretax_income = Some 20 \<rparr>])
     = Inr [Fin 50, Fin 10, Fin 50, Fin (- 1 / 2)]
   \<and> ci_means (test_bootstrap_ci (\<lambda>g n k. (replicate k 0, g)) ()
          [\<lparr> PH_SEQ = 2, MARSUPWT = 1, pretax_income = Some 20 \<rparr>,
           \<lparr> PH_SEQ = 1, MARSUPWT = 1, pretax_income = Some 10 \<rparr>])
     = Inr [Fin 50, Fin 20, Fin 50, Fin (- 1 / 2)]"
proof -
  have a: "set (cluster_keys (valid_rows
          [\<lparr> PH_SEQ = 1, MARSUPWT = 1, pretax_income = Some 10 \<rparr>,
           \<lparr> PH_SEQ = 2, MARSUPWT = 1, pretax_income = Some 20 \<rparr>]))
     = set (cluster_keys (valid_rows
          [\<lparr> PH_SEQ = 2, MARSUPWT = 1, pretax_income = Some 20 \<rparr>,
           \<lparr> PH_SEQ = 1, MARSUPWT = 1, pretax_income = Some 10 \<rparr>]))"
    by (auto simp: valid_rows_def cluster_keys_def)
  have b: "cluster_members (valid_rows
          [\<lparr> PH_SEQ = 1, MARSUPWT = 1, pretax_income = Some 10 \<rparr>,
           \<lparr> PH_SEQ = 2, MARSUPWT = 1, pretax_income = Some 20 \<rparr>]) k
     = cluster_members (valid_rows
          [\<lparr> PH_SEQ = 2, MARSUPWT = 1, pretax_income = Some 20 \<rparr>,
           \<lparr> PH_SEQ = 1, MARSUPWT = 1, pretax_income = Some 10 \<rparr>]) k" for k
    by (simp add: valid_rows_def cluster_members_def)
  note ra = ci_means_const[OF run_rows_in_order[of n_boot]]
  note rb = ci_means_const[OF run_rows_swapped[of n_boot]]
  show ?thesis
    using a b[of 1] b[of 2] ra rb by (simp add: stats_selectors_def)
qed

text \<open>
  C6 as amended: two runs with the same generator state whose tables have the same
  distinct cluster keys in the same order of first appearance, and for each key the
  same member observations in the same row order, produce identical replicate draws,
  samples and statistics and identical confidence intervals; the result depends on
  the seed, on that order of the keys and on the members of each key, and on nothing
  else (not, for instance, on how rows of different clusters are interleaved).
\<close>

theorem bootstrap_ordered_universe:
  assumes ck: "cluster_keys (valid_rows df1) = cluster_keys (valid_rows df2)"
      and cm: "\<forall>k. cluster_members (valid_rows df1) k = cluster_members (valid_rows df2) k"
  shows "bootstrap_outcome (test_bootstrap_ci ri g df1)
       = bootstrap_outcome (test_bootstrap_ci ri g df2)"
proof -
  have e: "map_sum id (map (\<lambda>rep. (boot_hh rep, boot_sample rep, boot_result rep)))
           (boot_loop ri (valid_rows df1) n_boot g)
       = map_sum id (map (\<lambda>rep. (boot_hh rep, boot_sample rep, boot_result rep)))
           (boot_loop ri (valid_rows df2) n_boot g)"
    using ck cm by (rule boot_loop_cong)
  have v: "map (\<lambda>rep. sel (boot_result rep)) reps
           = map (\<lambda>x. sel (snd (snd x)))
               (map (\<lambda>rep. (boot_hh rep, boot_sample rep, boot_result rep)) reps)"
    for sel :: "boot_stats \<Rightarrow> real" and reps :: "boot_replicate list"
    by simp
  show ?thesis
  proof (cases "boot_loop ri (valid_rows df1) n_boot g")
    case (Inl e1)
    then show ?thesis using e
      by (cases "boot_loop ri (valid_rows df2) n_boot g")
         (simp_all add: test_bootstrap_ci_def bootstrap_ci_def bootstrap_outcome_def)
  next
    case (Inr r1)
    then obtain r2 where r2: "boot_loop ri (valid_rows df2) n_boot g = Inr r2"
      and m: "map (\<lambda>rep. (boot_hh rep, boot_sample rep, boot_result rep)) r1
            = map (\<lambda>rep. (boot_hh rep, boot_sample rep, boot_result rep)) r2"
      using e by (cases "boot_loop ri (valid_rows df2) n_boot g") simp_all
    have "map (\<lambda>rep. sel (boot_result rep)) r1 = map (\<lambda>rep. sel (boot_result rep)) r2"
      for sel :: "boot_stats \<Rightarrow> real"
      unfolding v[of sel r1] v[of sel r2] m by (rule refl)
    then show ?thesis
      using m by (simp add: test_bootstrap_ci_def bootstrap_ci_def bootstrap_outcome_def Inr r2)
  qed
qed


theorem bootstrap_ordered_universe_witness:
  "cluster_keys (valid_rows
       [\<lparr> PH_SEQ = 1, MARSUPWT = 1, pretax_income = Some 10 \<rparr>,
        \<lparr> PH_SEQ = 2, MARSUPWT = 1, pretax_income = Some 20 \<rparr>,
        \<lparr> PH_SEQ = 1, MARSUPWT = 2, pretax_income = Some 30 \<rparr>])
     = cluster_keys (valid_rows
       [\<lparr> PH_SEQ = 1, MARSUPWT = 1, pretax_income = Some 10 \<rparr>,
        \<lparr> PH_SEQ = 1, MARSUPWT = 2, pretax_income = Some 30 \<rparr>,
        \<lparr> PH_SEQ = 2, MARSUPWT = 1, pretax_income = Some 20 \<rparr>])
   \<and> (\<forall>k. cluster_members (valid_rows
       [\<lparr> PH_SEQ = 1, MARSUPWT = 1, pretax_income = Some 10 \<rparr>,
        \<lparr> PH_SEQ = 2, MARSUPWT = 1, pretax_income = Some 20 \<rparr>,
        \<lparr> PH_SEQ = 1, MARSUPWT = 2, pretax_income = Some 30 \<rparr>]) k
     = cluster_members (valid_rows
       [\<lparr> PH_SEQ = 1, MARSUPWT = 1, pretax_income = Some 10 \<rparr>,
        \<lparr> PH_SEQ = 1, MARSUPWT = 2, pretax_income = Some 30 \<rparr>,
        \<lparr> PH_SEQ = 2, MARSUPWT = 1, pretax_income = Some 20 \<rparr>]) k)
   \<and> bootstrap_outcome (test_bootstrap_ci (\<lambda>g n k. (replicate k 0, g)) ()
       [\<lparr> PH_SEQ = 1, MARSUPWT = 1, pretax_income = Some 10 \<rparr>,
        \<lparr> PH_SEQ = 2, MARSUPWT = 1, pretax_income = Some 20 \<rparr>,
        \<lparr> PH_SEQ = 1, MARSUPWT = 2, pretax_income = Some 30 \<rparr>])
     = bootstrap_outcome (test_bootstrap_ci (\<lambda>g n k. (replicate k 0, g)) ()
       [\<lparr> PH_SEQ = 1, MARSUPWT = 1, pretax_income = Some 10 \<rparr>,
        \<lparr> PH_SEQ = 1, MARSUPWT = 2, pretax_income = Some 30 \<rparr>,
        \<lparr> PH_SEQ = 2, MARSUPWT = 1, pretax_income = Some 20 \<rparr>])"
proof -
  have h1: "cluster_keys (valid_rows
       [\<lparr> PH_SEQ = 1, MARSUPWT = 1, pretax_income = Some 10 \<rparr>,
        \<lparr> PH_SEQ = 2, MARSUPWT = 1, pretax_income = Some 20 \<rparr>,
        \<lparr> PH_SEQ = 1, MARSUPWT = 2, pretax_income = Some 30 \<rparr>])
     = cluster_keys (valid_rows
       [\<lparr> PH_SEQ = 1, MARSUPWT = 1, pretax_income = Some 10 \<rparr>,
        \<lparr> PH_SEQ = 1, MARSUPWT = 2, pretax_income = Some 30 \<rparr>,
        \<lparr> PH_SEQ = 2, MARSUPWT = 1, pretax_income = Some 20 \<rparr>])"
    by (simp add: valid_rows_def cluster_keys_def)
  have h2: "\<forall>k. cluster_members (valid_rows
       [\<lparr> PH_SEQ = 1, MARSUPWT = 1, pretax_income = Some 10 \<rparr>,
        \<lparr> PH_SEQ = 2, MARSUPWT = 1, pretax_income = Some 20 \<rparr>,
        \<lparr> PH_SEQ = 1, MARSUPWT = 2, pretax_income = Some 30 \<rparr>]) k
     = cluster_members (valid_rows
       [\<lparr> PH_SEQ = 1, MARSUPWT = 1, pretax_income = Some 10 \<rparr>,
        \<lparr> PH_SEQ = 1, MARSUPWT = 2, pretax_income = Some 30 \<rparr>,
        \<lparr> PH_SEQ = 2, MARSUPWT = 1, pretax_income = Some 20 \<rparr>]) k"
    by (simp add: valid_rows_def cluster_members_def)
  show ?thesis
    using bootstrap_ordered_universe[OF h1 h2, of "\<lambda>g n k. (replicate k 0, g)" "()"] h1 h2
    by blast
qed

end
